theory Spec2Isabelle
  imports Main "HOL-Library.Char_ord" "HOL-Library.Multiset" "HOL-Library.AList"
begin

section \<open>Go strings\<close>

text \<open>
  A Go string is a sequence of bytes; it is modelled as \<open>string\<close> (a list of 8-bit
  characters). The functions of package \<open>strings\<close> used by the program are written out
  below. Case mapping (\<open>strings.ToLower\<close>, \<open>strings.EqualFold\<close>) is modelled on the ASCII
  letters only: Go identifiers, HTTP verbs and the cleaned schema names the program
  handles are ASCII.
\<close>

definition HasPrefix :: "string \<Rightarrow> string \<Rightarrow> bool" where
  "HasPrefix s p = (take (length p) s = p)"

definition HasSuffix :: "string \<Rightarrow> string \<Rightarrow> bool" where
  "HasSuffix s p = (length p \<le> length s \<and> drop (length s - length p) s = p)"

definition TrimPrefix :: "string \<Rightarrow> string \<Rightarrow> string" where
  "TrimPrefix s p = (if HasPrefix s p then drop (length p) s else s)"

fun Contains :: "string \<Rightarrow> string \<Rightarrow> bool" where
  "Contains [] sub = (sub = [])"
| "Contains (c # cs) sub = (HasPrefix (c # cs) sub \<or> Contains cs sub)"

definition isUpper :: "char \<Rightarrow> bool" where
  "isUpper c = (CHR ''A'' \<le> c \<and> c \<le> CHR ''Z'')"

definition isLower :: "char \<Rightarrow> bool" where
  "isLower c = (CHR ''a'' \<le> c \<and> c \<le> CHR ''z'')"

definition isDigit :: "char \<Rightarrow> bool" where
  "isDigit c = (CHR ''0'' \<le> c \<and> c \<le> CHR ''9'')"

text \<open>
  Adding \<open>'a' - 'A'\<close> (32) to an upper-case ASCII letter sets bit 5 of the byte, which is
  clear in every byte from \<open>'A'\<close> to \<open>'Z'\<close>.
\<close>

definition toLowerChar :: "char \<Rightarrow> char" where
  "toLowerChar c =
     (if isUpper c
      then (case c of Char b0 b1 b2 b3 b4 b5 b6 b7 \<Rightarrow> Char b0 b1 b2 b3 b4 True b6 b7)
      else c)"

definition ToLower :: "string \<Rightarrow> string" where
  "ToLower s = map toLowerChar s"

text \<open>\<open>strings.ReplaceAll(s, "*", "")\<close> and its like: every occurrence of one byte is deleted.\<close>

definition removeChar :: "char \<Rightarrow> string \<Rightarrow> string" where
  "removeChar c s = filter (\<lambda>x. x \<noteq> c) s"

section \<open>Analyzer: response type inferred from a service method name\<close>

text \<open>
  \<open>prefixMappings\<close> of \<open>inferResponseTypeFromMethodName\<close>. A format with one \<open>%s\<close> is kept
  as the pair of the text before and the text after the hole.
\<close>

definition prefixMappings :: "(string \<times> string \<times> string) list" where
  "prefixMappings =
    [(''Get'', '''', ''Response''),
     (''Fetch'', '''', ''Response''),
     (''List'', '''', ''ListResponse''),
     (''Search'', ''Search'', ''Response''),
     (''Find'', '''', ''Response''),
     (''Create'', '''', ''Response''),
     (''Update'', '''', ''Response''),
     (''Delete'', '''', ''Response''),
     (''Save'', '''', ''Response''),
     (''Parse'', '''', ''Response''),
     (''Process'', '''', ''Response''),
     (''Generate'', '''', ''Response''),
     (''Calculate'', '''', ''Response''),
     (''Validate'', '''', ''ValidationResponse''),
     (''Check'', '''', ''CheckResponse'')]"

fun inferFromMappings :: "(string \<times> string \<times> string) list \<Rightarrow> string \<Rightarrow> string" where
  "inferFromMappings [] methodName = methodName @ ''Response''"
| "inferFromMappings ((pfx, before, after) # ms) methodName =
     (if HasPrefix methodName pfx
      then (let entityName = TrimPrefix methodName pfx
            in if entityName \<noteq> [] then before @ entityName @ after
               else inferFromMappings ms methodName)
      else inferFromMappings ms methodName)"

definition inferResponseTypeFromMethodName :: "string \<Rightarrow> string" where
  "inferResponseTypeFromMethodName methodName = inferFromMappings prefixMappings methodName"

section \<open>The two snake-case transforms\<close>

text \<open>
  The analyzer's \<open>toSnakeCase\<close> (extract.go) walks the string and writes an underscore
  before every upper-case ASCII letter that is not at index 0.
\<close>

fun snakeLoop :: "nat \<Rightarrow> string \<Rightarrow> string" where
  "snakeLoop i [] = []"
| "snakeLoop i (r # rs) =
     (if 0 < i \<and> CHR ''A'' \<le> r \<and> r \<le> CHR ''Z''
      then CHR ''_'' # r # snakeLoop (Suc i) rs
      else r # snakeLoop (Suc i) rs)"

definition analyzer_toSnakeCase :: "string \<Rightarrow> string" where
  "analyzer_toSnakeCase str =
     (if Contains str ''_'' \<and> ToLower str = str then str
      else ToLower (snakeLoop 0 str))"

text \<open>
  The generator's \<open>toSnakeCase\<close> (convert.go) replaces every leftmost, non-overlapping
  match of the regular expression \<open>([a-z0-9])([A-Z])\<close> by \<open>${1}_${2}\<close>.
\<close>

fun replaceLowerUpper :: "string \<Rightarrow> string" where
  "replaceLowerUpper (a # b # rest) =
     (if (isLower a \<or> isDigit a) \<and> isUpper b
      then a # CHR ''_'' # b # replaceLowerUpper rest
      else a # replaceLowerUpper (b # rest))"
| "replaceLowerUpper s = s"

definition toSnakeCase :: "string \<Rightarrow> string" where
  "toSnakeCase str =
     (if Contains str ''_'' \<and> ToLower str = str then str
      else ToLower (replaceLowerUpper str))"

text \<open>
  The inputs on which the two transforms insert the same underscores: every upper-case
  letter after the first byte directly follows a lower-case letter or a digit.
\<close>

fun upperAfterLower :: "char \<Rightarrow> string \<Rightarrow> bool" where
  "upperAfterLower p [] = True"
| "upperAfterLower p (c # cs) = ((isUpper c \<longrightarrow> isLower p \<or> isDigit p) \<and> upperAfterLower c cs)"

definition camelHumps :: "string \<Rightarrow> bool" where
  "camelHumps s = (case s of [] \<Rightarrow> True | c # cs \<Rightarrow> upperAfterLower c cs)"

section \<open>More of package strings\<close>

definition isSpace :: "char \<Rightarrow> bool" where
  "isSpace c = (c \<in> set [CHR '' '', CHR 0x09, CHR 0x0A, CHR 0x0B, CHR 0x0C, CHR 0x0D])"

definition TrimSpace :: "string \<Rightarrow> string" where
  "TrimSpace s = rev (dropWhile isSpace (rev (dropWhile isSpace s)))"

text \<open>\<open>strings.LastIndex(s, ".")\<close> for a one-byte separator; \<open>None\<close> is Go's \<open>-1\<close>.\<close>

definition LastIndex :: "string \<Rightarrow> char \<Rightarrow> nat option" where
  "LastIndex s c =
     (if c \<in> set s then Some (length s - Suc (length (takeWhile (\<lambda>x. x \<noteq> c) (rev s))))
      else None)"

text \<open>\<open>strings.Split(s, sep)\<close> for a one-byte separator.\<close>

fun Split :: "string \<Rightarrow> char \<Rightarrow> string list" where
  "Split [] sep = [[]]"
| "Split (c # cs) sep =
     (if c = sep then [] # Split cs sep
      else (case Split cs sep of [] \<Rightarrow> [[c]] | p # ps \<Rightarrow> (c # p) # ps))"

section \<open>Analyzer: the intermediate model (models.go)\<close>

text \<open>
  A value of type \<open>interface{}\<close> is \<open>None\<close> for \<open>nil\<close> and otherwise one of the values
  the program stores there.
\<close>

datatype go_value = VString string | VInt int | VBool bool

record Field =
  Field_Name :: string
  Field_Type :: string
  JSONTag :: string
  OriginalType :: string
  Field_Required :: bool
  Field_Description :: string
  Field_Example :: "go_value option"

record Model =
  Model_Name :: string
  Package :: string
  Fields :: "Field list"
  Model_Description :: string

record Parameter =
  Parameter_Name :: string
  Parameter_In :: string
  Parameter_Required :: bool
  Parameter_Type :: string
  Parameter_Example :: string
  Parameter_Description :: string
  Parameter_Default :: "go_value option"
  Parameter_Enum :: "string list"

text \<open>
  \<open>RequestBody\<close> and \<open>Response\<close> of a route are pointers to a model, \<open>nil\<close> when
  unresolved; the generator reads only the model they point to.
\<close>

record Route =
  Route_Path :: string
  Method :: string
  Handler :: string
  Middleware :: "string list"
  Route_RequestBody :: "Model option"
  Route_Response :: "Model option"
  Route_Parameters :: "Parameter list"
  Route_Tags :: "string list"

text \<open>
  A Go map is an association list with distinct keys: \<open>map_of\<close> reads it and
  \<open>AList.update\<close> stores into it.
\<close>

record Analysis =
  Routes :: "Route list"
  Models :: "(string \<times> Model) list"

section \<open>Analyzer: the syntax trees it reads\<close>

text \<open>
  The part of \<open>go/ast\<close> that the declaration scanner inspects. \<open>OtherExpr\<close> stands for
  every type expression that \<open>getTypeStringWithArrays\<close> sends to its default branch.
\<close>

datatype Expr =
    Ident string
  | SelectorExpr Expr string
  | StarExpr Expr
  | ArrayType Expr
  | MapType Expr Expr
  | InterfaceType
  | BasicLit string
  | OtherExpr

text \<open>
  A field of a struct type: its names (none for an embedded field), its type, the raw
  text of its tag literal and the text of its doc comment, the last two \<open>None\<close> for \<open>nil\<close>.
\<close>

record ast_Field =
  Names :: "string list"
  Type :: Expr
  Tag :: "string option"
  Doc :: "string option"

datatype TypeExpr = StructType "ast_Field list" | NotStruct

datatype Spec = TypeSpec string TypeExpr | OtherSpec

datatype token = tok_TYPE | tok_VAR | tok_CONST | tok_IMPORT

record GenDecl =
  Tok :: token
  GenDecl_Doc :: "string option"
  Specs :: "Spec list"

text \<open>
  What \<open>parser.ParseFile\<close> gives for a path: an error, or the general declarations of the
  file in the order in which \<open>ast.Inspect\<close> visits them.
\<close>

datatype SourceFile = Unparsable | Parsed "GenDecl list"

datatype FileTree = RegularFile SourceFile | Directory "(string \<times> FileTree) list"

datatype error = PathError string | SyntaxError string | Wrap string error

section \<open>Analyzer: the declaration scanner\<close>

fun getTypeStringWithArrays :: "Expr \<Rightarrow> string" where
  "getTypeStringWithArrays (Ident name) = name"
| "getTypeStringWithArrays (SelectorExpr x sel) =
     (let pkg = getTypeStringWithArrays x
      in if pkg = ''time'' \<and> sel = ''Time'' then ''time.Time''
         else if pkg = ''sdk'' then sel
         else pkg @ ''.'' @ sel)"
| "getTypeStringWithArrays (StarExpr x) = ''*'' @ getTypeStringWithArrays x"
| "getTypeStringWithArrays (ArrayType elt) = ''[]'' @ getTypeStringWithArrays elt"
| "getTypeStringWithArrays (MapType k v) =
     ''map['' @ getTypeStringWithArrays k @ '']'' @ getTypeStringWithArrays v"
| "getTypeStringWithArrays InterfaceType = ''interface{}''"
| "getTypeStringWithArrays (BasicLit v) = v"
| "getTypeStringWithArrays OtherExpr = ''interface{}''"

text \<open>
  \<open>extractJSONTag\<close>: the first submatch of the regular expression \<open>json:"([^"]*)"\<close>, the
  empty string when nothing matches. The leftmost match starts at the leftmost
  occurrence of \<open>json:"\<close> after which a closing quote follows.
\<close>

fun extractJSONTag :: "string \<Rightarrow> string" where
  "extractJSONTag [] = []"
| "extractJSONTag (c # cs) =
     (if HasPrefix (c # cs) (''json:'' @ [CHR 0x22])
      then (let rest = drop 6 (c # cs);
                body = takeWhile (\<lambda>x. x \<noteq> CHR 0x22) rest
            in if length body < length rest then body else extractJSONTag cs)
      else extractJSONTag cs)"

text \<open>\<open>ast.Ident.IsExported\<close>: the name begins with an upper-case letter.\<close>

definition IsExported :: "string \<Rightarrow> bool" where
  "IsExported name = (case name of [] \<Rightarrow> False | c # cs \<Rightarrow> isUpper c)"

definition cleanTypeName :: "string \<Rightarrow> string" where
  "cleanTypeName typeName =
     (let cleaned = removeChar (CHR ''*'') typeName
      in case LastIndex cleaned (CHR ''.'') of
           None \<Rightarrow> cleaned
         | Some idx \<Rightarrow> drop (idx + 1) cleaned)"

text \<open>The two branches of the loop of \<open>parseStruct\<close> over the fields of the struct.\<close>

definition embeddedField :: "ast_Field \<Rightarrow> Field" where
  "embeddedField field =
     (let fieldType = getTypeStringWithArrays (Type field);
          modelField = \<lparr>Field_Name = fieldType, Field_Type = fieldType, JSONTag = '''',
                        OriginalType = fieldType, Field_Required = False,
                        Field_Description = '''', Field_Example = None\<rparr>
      in case Tag field of
           None \<Rightarrow> modelField
         | Some tag \<Rightarrow>
             (let jsonTag = extractJSONTag tag
              in if jsonTag \<noteq> ''''
                 then modelField\<lparr>JSONTag := jsonTag,
                                 Field_Required := \<not> Contains jsonTag ''omitempty''\<rparr>
                 else modelField))"

definition namedField :: "ast_Field \<Rightarrow> string \<Rightarrow> Field" where
  "namedField field fieldName =
     (let fieldType = getTypeStringWithArrays (Type field);
          modelField = \<lparr>Field_Name = fieldName, Field_Type = fieldType, JSONTag = '''',
                        OriginalType = fieldType, Field_Required = False,
                        Field_Description = '''', Field_Example = None\<rparr>;
          modelField = (case Tag field of
             Some tag \<Rightarrow>
               (let jsonTag = extractJSONTag tag
                in if jsonTag \<noteq> ''''
                   then (if Contains jsonTag ''omitempty''
                         then modelField\<lparr>JSONTag := jsonTag, Field_Required := False\<rparr>
                         else modelField\<lparr>JSONTag := jsonTag, Field_Required := True\<rparr>)
                   else modelField)
           | None \<Rightarrow> modelField\<lparr>Field_Required := True\<rparr>)
      in case Doc field of
           Some text \<Rightarrow> modelField\<lparr>Field_Description := TrimSpace text\<rparr>
         | None \<Rightarrow> modelField)"

fun parseStructFields :: "ast_Field list \<Rightarrow> Field list" where
  "parseStructFields [] = []"
| "parseStructFields (field # rest) =
     (if Names field = [] then [embeddedField field]
      else map (namedField field) (filter IsExported (Names field)))
     @ parseStructFields rest"

definition parseStruct :: "string \<Rightarrow> string \<Rightarrow> ast_Field list \<Rightarrow> string option \<Rightarrow> Model" where
  "parseStruct sdkPackage name structType doc =
     \<lparr>Model_Name = name, Package = sdkPackage, Fields = parseStructFields structType,
      Model_Description = (case doc of Some text \<Rightarrow> TrimSpace text | None \<Rightarrow> '''')\<rparr>"

text \<open>
  \<open>parseSDKFile\<close>: every struct type of every type declaration is stored in the model
  table under its cleaned name, by a plain map assignment.
\<close>

fun parseSpecs :: "string \<Rightarrow> string option \<Rightarrow> Spec list \<Rightarrow> Analysis \<Rightarrow> Analysis" where
  "parseSpecs sdkPackage doc [] analysis = analysis"
| "parseSpecs sdkPackage doc (TypeSpec name (StructType structType) # specs) analysis =
     (let model = parseStruct sdkPackage name structType doc;
          cleanName = cleanTypeName (Model_Name model);
          model = model\<lparr>Model_Name := cleanName\<rparr>
      in parseSpecs sdkPackage doc specs
           (analysis\<lparr>Models := AList.update cleanName model (Models analysis)\<rparr>))"
| "parseSpecs sdkPackage doc (spec # specs) analysis = parseSpecs sdkPackage doc specs analysis"

fun parseDecls :: "string \<Rightarrow> GenDecl list \<Rightarrow> Analysis \<Rightarrow> Analysis" where
  "parseDecls sdkPackage [] analysis = analysis"
| "parseDecls sdkPackage (node # nodes) analysis =
     parseDecls sdkPackage nodes
       (if Tok node = tok_TYPE then parseSpecs sdkPackage (GenDecl_Doc node) (Specs node) analysis
        else analysis)"

definition parseSDKFile :: "string \<Rightarrow> string \<Rightarrow> SourceFile \<Rightarrow> Analysis \<Rightarrow> error + Analysis" where
  "parseSDKFile sdkPackage filePath src analysis =
     (case src of
        Unparsable \<Rightarrow> Inl (SyntaxError filePath)
      | Parsed decls \<Rightarrow> Inr (parseDecls sdkPackage decls analysis))"

text \<open>
  \<open>filepath.Walk\<close> of the standard library, as its documentation gives it: when the
  \<open>Lstat\<close> of the root fails, the callback is called once with that error and its answer
  is the result of the walk; otherwise the callback is called on the root and, for a
  directory, on every entry in lexical order, and the first error it returns stops the
  walk. Entries are given in lexical order; unreadable directories are left out. The
  callback here is the closure of \<open>parseSDKModels\<close>; it never returns \<open>SkipDir\<close>.
  \<open>parser.ParseFile\<close> fails on a directory.
\<close>

definition walkFn :: "string \<Rightarrow> string \<Rightarrow> FileTree option \<Rightarrow> error option \<Rightarrow> Analysis \<Rightarrow> error + Analysis" where
  "walkFn sdkPackage path info err analysis =
     (case err of
        Some e \<Rightarrow> Inl e
      | None \<Rightarrow>
          if \<not> HasSuffix path ''.go'' \<or> HasSuffix path ''_test.go'' then Inr analysis
          else (case info of
                  Some (RegularFile src) \<Rightarrow> parseSDKFile sdkPackage path src analysis
                | _ \<Rightarrow> Inl (SyntaxError path)))"

definition Join :: "string \<Rightarrow> string \<Rightarrow> string" where
  "Join dir name = dir @ ''/'' @ name"

fun walk :: "string \<Rightarrow> string \<Rightarrow> FileTree \<Rightarrow> Analysis \<Rightarrow> error + Analysis"
and walkEntries :: "string \<Rightarrow> string \<Rightarrow> (string \<times> FileTree) list \<Rightarrow> Analysis \<Rightarrow> error + Analysis"
where
  "walk sdkPackage path (RegularFile src) analysis =
     walkFn sdkPackage path (Some (RegularFile src)) None analysis"
| "walk sdkPackage path (Directory entries) analysis =
     (case walkFn sdkPackage path (Some (Directory entries)) None analysis of
        Inl e \<Rightarrow> Inl e
      | Inr analysis' \<Rightarrow> walkEntries sdkPackage path entries analysis')"
| "walkEntries sdkPackage path [] analysis = Inr analysis"
| "walkEntries sdkPackage path ((name, tree) # entries) analysis =
     (case walk sdkPackage (Join path name) tree analysis of
        Inl e \<Rightarrow> Inl e
      | Inr analysis' \<Rightarrow> walkEntries sdkPackage path entries analysis')"

definition Walk :: "string \<Rightarrow> string \<Rightarrow> FileTree option \<Rightarrow> Analysis \<Rightarrow> error + Analysis" where
  "Walk sdkPackage root tree analysis =
     (case tree of
        None \<Rightarrow> walkFn sdkPackage root None (Some (PathError root)) analysis
      | Some t \<Rightarrow> walk sdkPackage root t analysis)"

text \<open>
  \<open>parseSDKModels\<close>; \<open>sdk\<close> is what the file system holds at \<open>projectPath/sdk\<close>, \<open>None\<close>
  when nothing exists there.
\<close>

definition parseSDKModels :: "string \<Rightarrow> string \<Rightarrow> FileTree option \<Rightarrow> Analysis \<Rightarrow> error + Analysis" where
  "parseSDKModels sdkPackage projectPath sdk analysis =
     (let sdkPath = Join projectPath ''sdk''
      in Walk sdkPackage sdkPath sdk analysis)"

text \<open>
  \<open>Analyze\<close>. The route parser is a parameter: what is proved of \<open>Analyze\<close> below holds
  whatever \<open>parseRoutes\<close> does.
\<close>

definition Analyze ::
  "(Analysis \<Rightarrow> error + Analysis) \<Rightarrow> string \<Rightarrow> string \<Rightarrow> FileTree option \<Rightarrow> error + Analysis" where
  "Analyze parseRoutes sdkPackage projectPath sdk =
     (let analysis = \<lparr>Routes = [], Models = []\<rparr>
      in case parseSDKModels sdkPackage projectPath sdk analysis of
           Inl err \<Rightarrow> Inl (Wrap ''failed to parse SDK models'' err)
         | Inr analysis \<Rightarrow>
             (case parseRoutes analysis of
                Inl err \<Rightarrow> Inl (Wrap ''failed to parse routes'' err)
              | Inr analysis \<Rightarrow> Inr analysis))"

text \<open>
  The struct declarations of a file in the order in which \<open>parseSDKFile\<close> registers them:
  name, fields and the doc comment of the enclosing declaration.
\<close>

fun structSpecs :: "string option \<Rightarrow> Spec list \<Rightarrow> (string \<times> ast_Field list \<times> string option) list" where
  "structSpecs doc [] = []"
| "structSpecs doc (TypeSpec name (StructType structType) # specs) =
     (name, structType, doc) # structSpecs doc specs"
| "structSpecs doc (spec # specs) = structSpecs doc specs"

fun structDecls :: "GenDecl list \<Rightarrow> (string \<times> ast_Field list \<times> string option) list" where
  "structDecls [] = []"
| "structDecls (node # nodes) =
     (if Tok node = tok_TYPE then structSpecs (GenDecl_Doc node) (Specs node) else [])
     @ structDecls nodes"

text \<open>One step of \<open>parseSDKFile\<close>: a struct declaration is stored under its cleaned name.\<close>

definition register :: "string \<Rightarrow> (string \<times> ast_Field list \<times> string option) \<Rightarrow> Analysis \<Rightarrow> Analysis" where
  "register pkg d a = (case d of (name, st, doc) \<Rightarrow>
     a\<lparr>Models := AList.update (cleanTypeName name)
          ((parseStruct pkg name st doc)\<lparr>Model_Name := cleanTypeName name\<rparr>) (Models a)\<rparr>)"

section \<open>Generator: the document (models.go)\<close>

text \<open>
  A schema. \<open>Properties\<close> is a Go map (the empty list stands for both the \<open>nil\<close> and the
  empty map, which the program treats alike); \<open>Items\<close> is a pointer; \<open>AdditionalProperties\<close>
  is an \<open>interface{}\<close> that holds \<open>nil\<close>, a \<open>bool\<close> or a \<open>*Schema\<close>. The fields \<open>AllOf\<close>,
  \<open>OneOf\<close> and \<open>AnyOf\<close> are never written or read by the program and are left out.
\<close>

datatype Schema = Schema
  (Schema_Type: string)
  (Format: string)
  (Properties: "(string \<times> Schema) list")
  (Items: "Schema option")
  (Required: "string list")
  (AdditionalProperties: "(bool + Schema) option")
  (Ref: string)
  (Example: "go_value option")
  (Schema_Description: string)
  (Enum: "go_value list")
  (Default: "go_value option")

definition emptySchema :: Schema where
  "emptySchema = Schema '''' '''' [] None [] None '''' None '''' [] None"

definition set_Type :: "string \<Rightarrow> Schema \<Rightarrow> Schema" where
  "set_Type v s = (case s of Schema t f p i r a rf e d en df \<Rightarrow> Schema v f p i r a rf e d en df)"

definition set_Format :: "string \<Rightarrow> Schema \<Rightarrow> Schema" where
  "set_Format v s = (case s of Schema t f p i r a rf e d en df \<Rightarrow> Schema t v p i r a rf e d en df)"

definition set_Properties :: "(string \<times> Schema) list \<Rightarrow> Schema \<Rightarrow> Schema" where
  "set_Properties v s = (case s of Schema t f p i r a rf e d en df \<Rightarrow> Schema t f v i r a rf e d en df)"

definition set_Items :: "Schema option \<Rightarrow> Schema \<Rightarrow> Schema" where
  "set_Items v s = (case s of Schema t f p i r a rf e d en df \<Rightarrow> Schema t f p v r a rf e d en df)"

definition set_Required :: "string list \<Rightarrow> Schema \<Rightarrow> Schema" where
  "set_Required v s = (case s of Schema t f p i r a rf e d en df \<Rightarrow> Schema t f p i v a rf e d en df)"

definition set_AdditionalProperties :: "(bool + Schema) option \<Rightarrow> Schema \<Rightarrow> Schema" where
  "set_AdditionalProperties v s =
     (case s of Schema t f p i r a rf e d en df \<Rightarrow> Schema t f p i r v rf e d en df)"

definition set_Ref :: "string \<Rightarrow> Schema \<Rightarrow> Schema" where
  "set_Ref v s = (case s of Schema t f p i r a rf e d en df \<Rightarrow> Schema t f p i r a v e d en df)"

definition set_Example :: "go_value option \<Rightarrow> Schema \<Rightarrow> Schema" where
  "set_Example v s = (case s of Schema t f p i r a rf e d en df \<Rightarrow> Schema t f p i r a rf v d en df)"

definition set_Description :: "string \<Rightarrow> Schema \<Rightarrow> Schema" where
  "set_Description v s = (case s of Schema t f p i r a rf e d en df \<Rightarrow> Schema t f p i r a rf e v en df)"

definition set_Enum :: "go_value list \<Rightarrow> Schema \<Rightarrow> Schema" where
  "set_Enum v s = (case s of Schema t f p i r a rf e d en df \<Rightarrow> Schema t f p i r a rf e d v df)"

definition set_Default :: "go_value option \<Rightarrow> Schema \<Rightarrow> Schema" where
  "set_Default v s = (case s of Schema t f p i r a rf e d en df \<Rightarrow> Schema t f p i r a rf e d en v)"

record MediaType =
  MediaType_Schema :: Schema

record Response =
  Response_Description :: string
  Response_Content :: "(string \<times> MediaType) list"

record RequestBody =
  RequestBody_Description :: string
  RequestBody_Content :: "(string \<times> MediaType) list"
  RequestBody_Required :: bool

text \<open>\<open>Parameter\<close> of package generator (package analyzer has a type of the same name).\<close>

record OpParameter =
  Name :: string
  In :: string
  Description :: string
  OpParameter_Required :: bool
  OpParameter_Schema :: Schema
  OpParameter_Example :: "go_value option"

record Operation =
  Operation_Tags :: "string list"
  Summary :: string
  Operation_Description :: string
  OperationID :: string
  Parameters :: "OpParameter list"
  RequestBody :: "RequestBody option"
  Responses :: "(string \<times> Response) list"
  Security :: "(string \<times> string list) list list"

record PathItem =
  Get :: "Operation option"
  Post :: "Operation option"
  Put :: "Operation option"
  Delete :: "Operation option"
  Patch :: "Operation option"

record Info =
  Info_Title :: string
  Info_Description :: string
  Info_Version :: string

record Server =
  URL :: string
  Server_Description :: string

record SecurityScheme =
  SecurityScheme_Type :: string
  Scheme :: string
  BearerFormat :: string
  SecurityScheme_Description :: string

record Tag =
  Tag_Name :: string
  Tag_Description :: string

record Components =
  Schemas :: "(string \<times> Schema) list"
  SecuritySchemes :: "(string \<times> SecurityScheme) list"

record OpenAPISpec =
  OpenAPI :: string
  Spec_Info :: Info
  Servers :: "Server list"
  Paths :: "(string \<times> PathItem) list"
  Spec_Components :: Components
  Tags :: "Tag list"

record Config =
  Config_Title :: string
  Config_Version :: string
  Config_Description :: string
  ServerURL :: string

section \<open>Iteration over Go maps\<close>

text \<open>
  The order in which a \<open>range\<close> loop visits a Go map is not fixed: it can differ between
  two runs and between two loops of one run. A loop whose body only rewrites the value
  stored under the key it is visiting gives the same map in every order, and is written
  as a \<open>map\<close> over the association list. Every other loop over a map visits the keys in
  the order that an iteration oracle \<open>ord\<close> gives for the list of keys; \<open>iterationOrder\<close>
  says that the oracle does what Go does, visit every key once.
\<close>

type_synonym order = "string list \<Rightarrow> string list"

definition iterationOrder :: "order \<Rightarrow> bool" where
  "iterationOrder ord = (\<forall>ks. mset (ord ks) = mset ks)"

definition rangeMap :: "order \<Rightarrow> (string \<times> 'v) list \<Rightarrow> (string \<times> 'v) list" where
  "rangeMap ord m =
     List.map_filter (\<lambda>k. map_option (\<lambda>v. (k, v)) (map_of m k)) (ord (map fst m))"

section \<open>Generator: names and types (utils.go, convert.go)\<close>

definition isLetter :: "char \<Rightarrow> bool" where
  "isLetter c = (isLower c \<or> isUpper c)"

definition isWordChar :: "char \<Rightarrow> bool" where
  "isWordChar c = (isLower c \<or> isUpper c \<or> isDigit c \<or> c = CHR ''_'')"

definition schemaPrefix :: string where
  "schemaPrefix = ''#/components/schemas/''"

text \<open>
  \<open>cleanSchemaName\<close>. The regular expression \<open>[^a-zA-Z0-9_]\<close> deletes every byte that is
  not a word character; \<open>^[a-zA-Z]\<close> asks for a letter at the start.
\<close>

definition cleanSchemaName :: "string \<Rightarrow> string" where
  "cleanSchemaName name =
     (let cleaned = removeChar (CHR ''*'') name;
          cleaned = (case LastIndex cleaned (CHR ''.'') of
                       None \<Rightarrow> cleaned
                     | Some idx \<Rightarrow> drop (idx + 1) cleaned);
          cleaned = filter isWordChar cleaned;
          cleaned = (if 0 < length cleaned \<and> \<not> isLetter (hd cleaned)
                     then ''Schema'' @ cleaned else cleaned)
      in if cleaned = '''' then ''UnknownSchema'' else cleaned)"

text \<open>
  \<open>isCustomType\<close>; \<open>cleanTypeName\<close> of package generator has the body of the analyzer's.
\<close>

definition builtinTypes :: "string list" where
  "builtinTypes =
     [''string'', ''int'', ''int8'', ''int16'', ''int32'', ''int64'', ''uint'', ''uint8'',
      ''uint16'', ''uint32'', ''uint64'', ''float32'', ''float64'', ''bool'', ''byte'', ''rune'',
      ''interface{}'', ''interface'', ''any'', ''time.Time'', ''error'', ''Time'']"

definition isCustomType :: "string \<Rightarrow> bool" where
  "isCustomType typeName =
     (let cleanType = cleanTypeName typeName
      in if cleanType = '''' then False
         else if cleanType \<in> set builtinTypes then False
         else if 0 < length cleanType \<and> CHR ''A'' \<le> hd cleanType \<and> hd cleanType \<le> CHR ''Z''
              then True
         else False)"

definition hasAuthMiddleware :: "string list \<Rightarrow> bool" where
  "hasAuthMiddleware middleware = (\<exists>mw \<in> set middleware. Contains (ToLower mw) ''auth'')"

text \<open>\<open>strings.Index(s, "]")\<close> for a one-byte separator; \<open>None\<close> is Go's \<open>-1\<close>.\<close>

definition Index :: "string \<Rightarrow> char \<Rightarrow> nat option" where
  "Index s c = (if c \<in> set s then Some (length (takeWhile (\<lambda>x. x \<noteq> c) s)) else None)"

definition extractMapValueType :: "string \<Rightarrow> string" where
  "extractMapValueType mapType0 =
     (let mapType = TrimSpace (removeChar (CHR ''*'') mapType0)
      in if \<not> HasPrefix mapType ''map['' then ''interface{}''
         else (case Index (drop 4 mapType) (CHR '']'') of
                 None \<Rightarrow> ''interface{}''
               | Some keyEnd \<Rightarrow>
                   (let valueStart = 4 + keyEnd + 1
                    in if length mapType \<le> valueStart then ''interface{}''
                       else TrimSpace (drop valueStart mapType))))"

text \<open>
  \<open>convertPathFormat\<close>: every leftmost, non-overlapping match of the regular expression
  \<open>:([a-zA-Z][a-zA-Z0-9_]*)\<close> is replaced by \<open>{$1}\<close>, and a path that does not start with
  a slash gets one.
\<close>

function replaceColonParams :: "string \<Rightarrow> string" where
  "replaceColonParams [] = []"
| "replaceColonParams (c # cs) =
     (if c = CHR '':'' \<and> cs \<noteq> [] \<and> isLetter (hd cs)
      then ''{'' @ takeWhile isWordChar cs @ ''}'' @ replaceColonParams (dropWhile isWordChar cs)
      else c # replaceColonParams cs)"
  by pat_completeness auto
termination
  by (relation "measure length") (auto simp: less_Suc_eq_le length_dropWhile_le)

definition convertPathFormat :: "string \<Rightarrow> string" where
  "convertPathFormat path =
     (let converted = replaceColonParams path
      in if \<not> HasPrefix converted ''/'' then ''/'' @ converted else converted)"

section \<open>Generator: schemas of models (generator.go)\<close>

function generateSchemaFromFieldType :: "string \<Rightarrow> Schema" where
  "generateSchemaFromFieldType fieldType =
     (let cleanType = cleanTypeName fieldType
      in if HasPrefix cleanType ''[]''
         then (let elementType = TrimPrefix cleanType ''[]'';
                   itemSchema = generateSchemaFromFieldType elementType
               in set_Items (Some itemSchema) (set_Type ''array'' emptySchema))
         else if cleanType = ''string'' then set_Type ''string'' emptySchema
         else if cleanType \<in> set [''int'', ''int32'', ''int8'', ''int16'']
              then set_Format ''int32'' (set_Type ''integer'' emptySchema)
         else if cleanType = ''int64'' then set_Format ''int64'' (set_Type ''integer'' emptySchema)
         else if cleanType \<in> set [''uint'', ''uint32'', ''uint8'', ''uint16'']
              then set_Format ''int32'' (set_Type ''integer'' emptySchema)
         else if cleanType = ''uint64'' then set_Format ''int64'' (set_Type ''integer'' emptySchema)
         else if cleanType = ''float32'' then set_Format ''float'' (set_Type ''number'' emptySchema)
         else if cleanType \<in> set [''float64'', ''float'']
              then set_Format ''double'' (set_Type ''number'' emptySchema)
         else if cleanType \<in> set [''bool'', ''boolean''] then set_Type ''boolean'' emptySchema
         else if cleanType \<in> set [''time.Time'', ''Time'']
              then set_Format ''date-time'' (set_Type ''string'' emptySchema)
         else if cleanType = ''byte'' then set_Format ''byte'' (set_Type ''string'' emptySchema)
         else if cleanType = ''rune'' then set_Format ''int32'' (set_Type ''integer'' emptySchema)
         else if isCustomType cleanType
              then set_Ref (schemaPrefix @ cleanSchemaName cleanType) emptySchema
         else set_Type ''object'' emptySchema)"
  by pat_completeness auto
termination
proof (relation "measure length")
  show "wf (measure length)" by simp
next
  fix fieldType cleanType x
  assume c: "cleanType = cleanTypeName fieldType" and p: "HasPrefix cleanType ''[]''"
    and x: "x = TrimPrefix cleanType ''[]''"
  have f: "length (removeChar (CHR ''*'') fieldType) \<le> length fieldType"
    by (simp add: removeChar_def)
  have "length (cleanTypeName fieldType) \<le> length (removeChar (CHR ''*'') fieldType)"
    by (simp add: cleanTypeName_def Let_def split: option.splits)
  with f have "length (cleanTypeName fieldType) \<le> length fieldType"
    by (rule le_trans [rotated])
  with c have le: "length cleanType \<le> length fieldType"
    by simp
  from p have "take 2 cleanType = ''[]''"
    by (simp add: HasPrefix_def numeral_2_eq_2)
  then have "length (take 2 cleanType) = length ''[]''"
    by (rule arg_cong)
  then have two: "2 \<le> length cleanType"
    by simp
  from x p have "length x = length cleanType - 2"
    by (simp add: TrimPrefix_def)
  with le two have "length x < length fieldType"
    by linarith
  then show "(x, fieldType) \<in> measure length"
    by simp
qed

definition withExample :: "Field \<Rightarrow> Schema \<Rightarrow> Schema" where
  "withExample field schema =
     (if Field_Example field \<noteq> None then set_Example (Field_Example field) schema else schema)"

text \<open>
  \<open>generateSchemaFromField\<close>. The branches for maps and for \<open>interface{}\<close> return before
  the example of the field is copied; the others end in \<open>withExample\<close>.
\<close>

definition generateSchemaFromField :: "Field \<Rightarrow> Schema" where
  "generateSchemaFromField field =
     (let schema = set_Description (Field_Description field) emptySchema;
          typeToCheck = (if OriginalType field = '''' then Field_Type field else OriginalType field);
          cleanType = removeChar (CHR ''*'') typeToCheck
      in if HasPrefix cleanType ''[]''
         then (let elementType = cleanTypeName (TrimPrefix cleanType ''[]'')
               in withExample field
                    (set_Items
                       (Some (if isCustomType elementType
                              then set_Ref (schemaPrefix @ cleanSchemaName elementType) emptySchema
                              else generateSchemaFromFieldType elementType))
                       (set_Type ''array'' schema)))
         else if Contains cleanType ''time.Time'' \<or> cleanType = ''time.Time'' \<or> cleanType = ''Time''
              then withExample field (set_Format ''date-time'' (set_Type ''string'' schema))
         else if HasPrefix cleanType ''map[''
              then (let mapValueType = extractMapValueType cleanType
                    in set_AdditionalProperties
                         (if mapValueType = ''interface{}'' \<or> mapValueType = ''interface''
                             \<or> mapValueType = ''any''
                          then Some (Inl True)
                          else if isCustomType mapValueType
                          then Some (Inr (set_Ref (schemaPrefix @ cleanSchemaName mapValueType)
                                            emptySchema))
                          else Some (Inr (generateSchemaFromFieldType mapValueType)))
                         (set_Type ''object'' schema))
         else if cleanType = ''interface{}'' \<or> cleanType = ''interface''
              then set_AdditionalProperties (Some (Inl True)) (set_Type ''object'' schema)
         else if Contains cleanType ''string'' then withExample field (set_Type ''string'' schema)
         else if Contains cleanType ''int64''
              then withExample field (set_Format ''int64'' (set_Type ''integer'' schema))
         else if Contains cleanType ''int32''
              then withExample field (set_Format ''int32'' (set_Type ''integer'' schema))
         else if Contains cleanType ''int''
              then withExample field (set_Format ''int32'' (set_Type ''integer'' schema))
         else if Contains cleanType ''float64''
              then withExample field (set_Format ''double'' (set_Type ''number'' schema))
         else if Contains cleanType ''float32''
              then withExample field (set_Format ''float'' (set_Type ''number'' schema))
         else if Contains cleanType ''bool'' then withExample field (set_Type ''boolean'' schema)
         else (let cleanRefType = cleanTypeName cleanType
               in withExample field
                    (if isCustomType cleanRefType
                     then set_Ref (schemaPrefix @ cleanSchemaName cleanRefType) schema
                     else set_Type ''object'' schema)))"

text \<open>
  The property key of a field in \<open>generateSchemaFromModel\<close>: the first part of the tag
  when it is neither empty nor a dash, else the field name, which is put in snake case
  when there is no tag.
\<close>

definition propertyKey :: "Field \<Rightarrow> string" where
  "propertyKey field =
     (let fieldName = Field_Name field;
          fieldName = (if JSONTag field \<noteq> ''''
                       then (case Split (JSONTag field) (CHR '','') of
                               [] \<Rightarrow> fieldName
                             | p0 # ps \<Rightarrow> if p0 \<noteq> '''' \<and> p0 \<noteq> ''-'' then p0 else fieldName)
                       else fieldName)
      in if JSONTag field = '''' then toSnakeCase fieldName else fieldName)"

fun generateSchemaFields :: "Field list \<Rightarrow> Schema \<Rightarrow> Schema" where
  "generateSchemaFields [] schema = schema"
| "generateSchemaFields (field # rest) schema =
     (let fieldSchema = generateSchemaFromField field;
          fieldName = propertyKey field
      in if JSONTag field = ''-'' then generateSchemaFields rest schema
         else (let schema = set_Properties (AList.update fieldName fieldSchema (Properties schema))
                              schema;
                   schema = (if Field_Required field
                             then set_Required (Required schema @ [fieldName]) schema
                             else schema)
               in generateSchemaFields rest schema))"

definition generateSchemaFromModel :: "Model \<Rightarrow> Schema" where
  "generateSchemaFromModel model =
     generateSchemaFields (Fields model)
       (set_Description (Model_Description model) (set_Type ''object'' emptySchema))"

section \<open>Generator: operations (helper.go)\<close>

definition toUpperChar :: "char \<Rightarrow> char" where
  "toUpperChar c =
     (if isLower c
      then (case c of Char b0 b1 b2 b3 b4 b5 b6 b7 \<Rightarrow> Char b0 b1 b2 b3 b4 False b6 b7)
      else c)"

text \<open>
  \<open>strings.Title\<close> on ASCII text: the first letter of every word is put in upper case; a
  word starts after every byte that is not a letter, a digit or an underscore.
\<close>

definition isSeparator :: "char \<Rightarrow> bool" where
  "isSeparator c = (c \<le> CHR 0x7F \<and> \<not> isWordChar c)"

fun TitleFrom :: "char \<Rightarrow> string \<Rightarrow> string" where
  "TitleFrom prev [] = []"
| "TitleFrom prev (r # rs) = (if isSeparator prev then toUpperChar r else r) # TitleFrom r rs"

definition Title :: "string \<Rightarrow> string" where
  "Title s = TitleFrom (CHR '' '') s"

definition replaceChar :: "char \<Rightarrow> char \<Rightarrow> string \<Rightarrow> string" where
  "replaceChar old new s = map (\<lambda>c. if c = old then new else c) s"

definition generateParameterSchema :: "Parameter \<Rightarrow> Schema" where
  "generateParameterSchema param =
     (let t = Parameter_Type param
      in if t = ''integer'' \<or> t = ''int'' then set_Format ''int32'' (set_Type ''integer'' emptySchema)
         else if t = ''int64'' then set_Format ''int64'' (set_Type ''integer'' emptySchema)
         else if t = ''number'' \<or> t = ''float'' \<or> t = ''double''
              then set_Format ''double'' (set_Type ''number'' emptySchema)
         else if t = ''boolean'' \<or> t = ''bool'' then set_Type ''boolean'' emptySchema
         else if t = ''array''
              then set_Items (Some (set_Type ''string'' emptySchema)) (set_Type ''array'' emptySchema)
         else set_Type ''string'' emptySchema)"

definition generateOperationID :: "Route \<Rightarrow> string" where
  "generateOperationID route =
     (let method = ToLower (Method route);
          path = convertPathFormat (Route_Path route);
          path = replaceChar (CHR ''/'') (CHR ''_'') path;
          path = removeChar (CHR ''{'') path;
          path = removeChar (CHR ''}'') path;
          path = replaceChar (CHR ''-'') (CHR ''_'') path;
          path = TrimPrefix path ''_''
      in method @ ''_'' @ path)"

definition getActionFromMethod :: "string \<Rightarrow> string" where
  "getActionFromMethod method =
     (case map_of [(''GET'', ''Get''), (''POST'', ''Create''), (''PUT'', ''Update''),
                   (''DELETE'', ''Delete''), (''PATCH'', ''Patch'')] method of
        Some action \<Rightarrow> action
      | None \<Rightarrow> method)"

definition getResourceFromPath :: "string \<Rightarrow> string" where
  "getResourceFromPath path =
     (case find (\<lambda>part. part \<noteq> '''' \<and> \<not> HasPrefix part '':'' \<and> \<not> HasPrefix part ''{'')
             (rev (Split path (CHR ''/''))) of
        Some part \<Rightarrow> Title part
      | None \<Rightarrow> ''Resource'')"

definition generateSummary :: "Route \<Rightarrow> string" where
  "generateSummary route =
     getActionFromMethod (Method route) @ '' '' @ getResourceFromPath (Route_Path route)"

definition generateDescription :: "Route \<Rightarrow> string" where
  "generateDescription route =
     Handler route @ '' handler for '' @ ToLower (Method route) @ '' '' @ Route_Path route"

definition tagDescriptions :: "(string \<times> string) list" where
  "tagDescriptions =
     [(''conversation'', ''Conversation management endpoints''),
      (''tenant'', ''Tenant configuration endpoints''),
      (''voice'', ''Voice management endpoints''),
      (''aimodel'', ''AI model configuration endpoints''),
      (''knowledgebase'', ''Knowledge base management endpoints''),
      (''user'', ''User authentication endpoints''),
      (''upload'', ''File upload endpoints''),
      (''whatsapp'', ''WhatsApp integration endpoints''),
      (''insights'', ''Analytics and insights endpoints''),
      (''campaign'', ''Campaign management endpoints''),
      (''contacts'', ''Contact management endpoints''),
      (''event'', ''Event management endpoints''),
      (''platformproviders'', ''Platform provider configuration endpoints''),
      (''toolcall'', ''Tool call management endpoints''),
      (''pipeline'', ''Pipeline management endpoints''),
      (''documents'', ''Document management endpoints''),
      (''twilio'', ''Twilio integration endpoints''),
      (''me'', ''User profile endpoints''),
      (''sockets'', ''WebSocket endpoints'')]"

definition generateTagDescription :: "string \<Rightarrow> string" where
  "generateTagDescription tagName =
     (case map_of tagDescriptions tagName of
        Some desc \<Rightarrow> desc
      | None \<Rightarrow> Title tagName @ '' related endpoints'')"

definition refContent :: "string \<Rightarrow> (string \<times> MediaType) list" where
  "refContent name =
     [(''application/json'', \<lparr>MediaType_Schema = set_Ref (schemaPrefix @ name) emptySchema\<rparr>)]"

definition opParameter :: "Parameter \<Rightarrow> OpParameter" where
  "opParameter param =
     (let schema = generateParameterSchema param;
          schema = (if 0 < length (Parameter_Enum param)
                    then set_Enum (map VString (Parameter_Enum param)) schema else schema);
          schema = (if Parameter_Default param \<noteq> None
                    then set_Default (Parameter_Default param) schema else schema)
      in \<lparr>Name = Parameter_Name param, In = Parameter_In param,
          Description = Parameter_Description param,
          OpParameter_Required = Parameter_Required param,
          OpParameter_Schema = schema,
          OpParameter_Example = (if Parameter_Example param \<noteq> ''''
                                 then Some (VString (Parameter_Example param)) else None)\<rparr>)"

definition generateOperation :: "Route \<Rightarrow> Operation" where
  "generateOperation route =
     \<lparr>Operation_Tags = Route_Tags route,
      Summary = generateSummary route,
      Operation_Description = generateDescription route,
      OperationID = generateOperationID route,
      Parameters = map opParameter (Route_Parameters route),
      RequestBody =
        (case Route_RequestBody route of
           None \<Rightarrow> None
         | Some model \<Rightarrow>
             (let modelName = Model_Name model;
                  modelName = (if Contains modelName ''Request'' \<or> Contains modelName ''Body''
                               then modelName else cleanSchemaName (Model_Name model))
              in Some \<lparr>RequestBody_Description = ''Request body'',
                       RequestBody_Content = refContent modelName,
                       RequestBody_Required = True\<rparr>)),
      Responses =
        [(''200'',
          (case Route_Response route of
             Some model \<Rightarrow>
               \<lparr>Response_Description = ''Successful operation'',
                Response_Content = refContent (cleanSchemaName (Model_Name model))\<rparr>
           | None \<Rightarrow> \<lparr>Response_Description = ''Successful operation'', Response_Content = []\<rparr>)),
         (''400'', \<lparr>Response_Description = ''Bad request'',
                    Response_Content = refContent ''ErrorResponse''\<rparr>),
         (''500'', \<lparr>Response_Description = ''Internal server error'',
                    Response_Content = refContent ''ErrorResponse''\<rparr>)],
      Security = (if hasAuthMiddleware (Middleware route) then [[(''bearerAuth'', [])]] else [])\<rparr>"

section \<open>Generator: the reference passes (updater.go, utils.go, remover.go)\<close>

definition updateReference :: "string \<Rightarrow> (string \<times> string) list \<Rightarrow> string" where
  "updateReference ref oldToNewNames =
     (if ref = '''' then ''''
      else if \<not> HasPrefix ref schemaPrefix then ref
      else (let oldName = TrimPrefix ref schemaPrefix
            in case map_of oldToNewNames oldName of
                 Some newName \<Rightarrow> schemaPrefix @ newName
               | None \<Rightarrow> schemaPrefix @ cleanSchemaName oldName))"

text \<open>
  \<open>updateSchemaReferences\<close>. Its branch for an \<open>AdditionalProperties\<close> that holds a
  \<open>Schema\<close> value (not a pointer) has no counterpart here: no such value is stored.
\<close>

primrec updateSchemaReferences :: "(string \<times> string) list \<Rightarrow> Schema \<Rightarrow> Schema" where
  "updateSchemaReferences oldToNewNames (Schema t f props items req ap ref ex d en df) =
     Schema t f
       (map (map_prod id (updateSchemaReferences oldToNewNames)) props)
       (map_option (updateSchemaReferences oldToNewNames) items)
       req
       (map_option (map_sum id (updateSchemaReferences oldToNewNames)) ap)
       (if ref \<noteq> '''' then updateReference ref oldToNewNames else ref)
       ex d en df"

definition updateContent ::
  "(string \<times> string) list \<Rightarrow> (string \<times> MediaType) list \<Rightarrow> (string \<times> MediaType) list" where
  "updateContent oldToNewNames content =
     map (\<lambda>(mediaType, c).
            (mediaType,
             c\<lparr>MediaType_Schema := updateSchemaReferences oldToNewNames (MediaType_Schema c)\<rparr>))
       content"

definition updateOperationReferences :: "(string \<times> string) list \<Rightarrow> Operation \<Rightarrow> Operation" where
  "updateOperationReferences oldToNewNames operation =
     operation
       \<lparr>RequestBody :=
          map_option
            (\<lambda>rb. rb\<lparr>RequestBody_Content := updateContent oldToNewNames (RequestBody_Content rb)\<rparr>)
            (RequestBody operation),
        Responses :=
          map (\<lambda>(statusCode, response).
                 (statusCode,
                  response\<lparr>Response_Content :=
                     updateContent oldToNewNames (Response_Content response)\<rparr>))
            (Responses operation)\<rparr>"

text \<open>One function applied to the five operations of a path item; \<open>nil\<close> stays \<open>nil\<close>.\<close>

definition mapOperations :: "(Operation \<Rightarrow> Operation) \<Rightarrow> PathItem \<Rightarrow> PathItem" where
  "mapOperations f pathItem =
     \<lparr>Get = map_option f (Get pathItem), Post = map_option f (Post pathItem),
      Put = map_option f (Put pathItem), Delete = map_option f (Delete pathItem),
      Patch = map_option f (Patch pathItem)\<rparr>"

definition updateAllReferences :: "OpenAPISpec \<Rightarrow> (string \<times> string) list \<Rightarrow> OpenAPISpec" where
  "updateAllReferences spec oldToNewNames =
     spec
       \<lparr>Paths :=
          map (\<lambda>(path, pathItem).
                 (path, mapOperations (updateOperationReferences oldToNewNames) pathItem))
            (Paths spec),
        Spec_Components :=
          (Spec_Components spec)
            \<lparr>Schemas :=
               map (\<lambda>(name, schema). (name, updateSchemaReferences oldToNewNames schema))
                 (Schemas (Spec_Components spec))\<rparr>\<rparr>"

text \<open>
  \<open>cleanAllSchemaNames\<close>: one loop over the schema table fills the table under the cleaned
  names and the mapping from old to new names; then every reference is updated.
\<close>

definition cleanedSchemas :: "order \<Rightarrow> (string \<times> Schema) list \<Rightarrow> (string \<times> Schema) list" where
  "cleanedSchemas ord schemas =
     fold (\<lambda>(oldName, schema) m. AList.update (cleanSchemaName oldName) schema m)
       (rangeMap ord schemas) []"

definition oldToNewNamesOf :: "order \<Rightarrow> (string \<times> Schema) list \<Rightarrow> (string \<times> string) list" where
  "oldToNewNamesOf ord schemas =
     fold (\<lambda>(oldName, schema) m. AList.update oldName (cleanSchemaName oldName) m)
       (rangeMap ord schemas) []"

definition cleanAllSchemaNames :: "order \<Rightarrow> OpenAPISpec \<Rightarrow> OpenAPISpec" where
  "cleanAllSchemaNames ord spec =
     updateAllReferences
       (spec\<lparr>Spec_Components :=
          (Spec_Components spec)
            \<lparr>Schemas := cleanedSchemas ord (Schemas (Spec_Components spec))\<rparr>\<rparr>)
       (oldToNewNamesOf ord (Schemas (Spec_Components spec)))"

text \<open>\<open>strings.EqualFold\<close> on ASCII text.\<close>

definition EqualFold :: "string \<Rightarrow> string \<Rightarrow> bool" where
  "EqualFold s t = (ToLower s = ToLower t)"

definition cleanReference :: "order \<Rightarrow> string \<Rightarrow> (string \<times> Schema) list \<Rightarrow> string" where
  "cleanReference ord ref allSchemas =
     (if ref = '''' then ''''
      else (let parts = Split ref (CHR ''/'');
                schemaName = last parts;
                cleanName = cleanSchemaName schemaName
            in if map_of allSchemas cleanName = None
               then (let cleanName =
                           (case find (\<lambda>existingName. EqualFold existingName cleanName)
                                   (map fst (rangeMap ord allSchemas)) of
                              Some existingName \<Rightarrow> existingName
                            | None \<Rightarrow> cleanName)
                     in if map_of allSchemas cleanName = None then ''''
                        else schemaPrefix @ cleanName)
               else schemaPrefix @ cleanName))"

definition cleanPropertyName :: "string \<Rightarrow> string" where
  "cleanPropertyName name = (if name = '''' then ''property'' else toSnakeCase name)"

text \<open>
  \<open>cleanSchema\<close>. A schema whose reference resolves becomes a bare reference; otherwise
  the reference is emptied and the properties (under their cleaned names, stored in the
  order of the visit), the items and the additional-properties schema are cleaned.
\<close>

primrec cleanSchema :: "order \<Rightarrow> (string \<times> Schema) list \<Rightarrow> Schema \<Rightarrow> Schema" where
  "cleanSchema ord allSchemas (Schema t f props items req ap ref ex d en df) =
     (let cleanedRef = (if ref \<noteq> '''' then cleanReference ord ref allSchemas else ref)
      in if ref \<noteq> '''' \<and> cleanedRef \<noteq> '''' then set_Ref cleanedRef emptySchema
         else Schema t f
                (fold (\<lambda>(propName, propSchema) cleanProps.
                         AList.update (cleanPropertyName propName) propSchema cleanProps)
                   (rangeMap ord (map (map_prod id (cleanSchema ord allSchemas)) props))
                   [])
                (map_option (cleanSchema ord allSchemas) items)
                req
                (map_option (map_sum id (cleanSchema ord allSchemas)) ap)
                cleanedRef ex d en df)"

definition validateSchemas :: "order \<Rightarrow> OpenAPISpec \<Rightarrow> OpenAPISpec" where
  "validateSchemas ord spec =
     spec\<lparr>Spec_Components :=
       (Spec_Components spec)
         \<lparr>Schemas :=
            map (\<lambda>(name, schema).
                   (name, cleanSchema ord (Schemas (Spec_Components spec)) schema))
              (Schemas (Spec_Components spec))\<rparr>\<rparr>"

primrec removeInvalidRefsFromSchema :: "string list \<Rightarrow> Schema \<Rightarrow> Schema" where
  "removeInvalidRefsFromSchema validSchemas (Schema t f props items req ap ref ex d en df) =
     (if ref \<noteq> '''' \<and> TrimPrefix ref schemaPrefix \<notin> set validSchemas
      then set_Type ''object'' emptySchema
      else Schema t f
             (map (map_prod id (removeInvalidRefsFromSchema validSchemas)) props)
             (map_option (removeInvalidRefsFromSchema validSchemas) items)
             req
             (map_option (map_sum id (removeInvalidRefsFromSchema validSchemas)) ap)
             ref ex d en df)"

definition removeInvalidContent ::
  "string list \<Rightarrow> (string \<times> MediaType) list \<Rightarrow> (string \<times> MediaType) list" where
  "removeInvalidContent validSchemas content =
     map (\<lambda>(mediaType, c).
            (mediaType,
             c\<lparr>MediaType_Schema := removeInvalidRefsFromSchema validSchemas (MediaType_Schema c)\<rparr>))
       content"

definition removeInvalidRefsFromOperation :: "string list \<Rightarrow> Operation \<Rightarrow> Operation" where
  "removeInvalidRefsFromOperation validSchemas operation =
     operation
       \<lparr>RequestBody :=
          map_option
            (\<lambda>rb. rb\<lparr>RequestBody_Content :=
                         removeInvalidContent validSchemas (RequestBody_Content rb)\<rparr>)
            (RequestBody operation),
        Responses :=
          map (\<lambda>(statusCode, response).
                 (statusCode,
                  response\<lparr>Response_Content :=
                     removeInvalidContent validSchemas (Response_Content response)\<rparr>))
            (Responses operation)\<rparr>"

definition removeInvalidReferences :: "OpenAPISpec \<Rightarrow> OpenAPISpec" where
  "removeInvalidReferences spec =
     (let validSchemas = map fst (Schemas (Spec_Components spec))
      in spec
           \<lparr>Paths :=
              map (\<lambda>(path, pathItem).
                     (path, mapOperations (removeInvalidRefsFromOperation validSchemas) pathItem))
                (Paths spec),
            Spec_Components :=
              (Spec_Components spec)
                \<lparr>Schemas :=
                   map (\<lambda>(name, schema). (name, removeInvalidRefsFromSchema validSchemas schema))
                     (Schemas (Spec_Components spec))\<rparr>\<rparr>)"

section \<open>Generator: path parameters (validator.go)\<close>

text \<open>
  \<open>FindAllStringSubmatch\<close> for the regular expression \<open>\{([^}]+)\}\<close>: every leftmost,
  non-overlapping match, each as the list of the whole match and its first group.
\<close>

function findBraceTokens :: "string \<Rightarrow> string list list" where
  "findBraceTokens [] = []"
| "findBraceTokens (c # cs) =
     (let name = takeWhile (\<lambda>x. x \<noteq> CHR ''}'') cs;
          rest = dropWhile (\<lambda>x. x \<noteq> CHR ''}'') cs
      in if c = CHR ''{'' \<and> name \<noteq> [] \<and> rest \<noteq> []
         then [''{'' @ name @ ''}'', name] # findBraceTokens (tl rest)
         else findBraceTokens cs)"
  by pat_completeness auto
termination
proof (relation "measure length")
  show "wf (measure length)" by simp
next
  fix c :: char and cs name rest :: string
  assume "rest = dropWhile (\<lambda>x. x \<noteq> CHR ''}'') cs"
  then have "length (tl rest) \<le> length cs"
    by (simp add: le_trans [OF diff_le_self length_dropWhile_le])
  then show "(tl rest, c # cs) \<in> measure length" by simp
next
  fix c :: char and cs :: string
  show "(cs, c # cs) \<in> measure length" by simp
qed

text \<open>
  \<open>validateOperationParameters\<close>, loop by loop: the map \<open>expectedParams\<close>, the declared
  parameters that are kept, and the missing path parameters, which are appended in the
  order in which the loop over the map \<open>expectedParams\<close> visits them.
\<close>

definition expectedParamsMap :: "string list list \<Rightarrow> (string \<times> bool) list" where
  "expectedParamsMap pathParams =
     fold (\<lambda>param m. if 1 < length param then AList.update (param ! 1) True m else m)
       pathParams []"

definition injectedParameter :: "string \<Rightarrow> OpParameter" where
  "injectedParameter paramName =
     \<lparr>Name = paramName, In = ''path'', Description = '''', OpParameter_Required = True,
      OpParameter_Schema = set_Type ''string'' emptySchema, OpParameter_Example = None\<rparr>"

definition addMissingParameter :: "string \<Rightarrow> OpParameter list \<Rightarrow> OpParameter list" where
  "addMissingParameter paramName validParams =
     (if \<exists>param \<in> set validParams. In param = ''path'' \<and> Name param = paramName
      then validParams
      else validParams @ [injectedParameter paramName])"

definition validateOperationParameters :: "order \<Rightarrow> Operation \<Rightarrow> string list list \<Rightarrow> Operation" where
  "validateOperationParameters ord operation pathParams =
     (let expectedParams = expectedParamsMap pathParams;
          validParams =
            filter (\<lambda>param. if In param = ''path''
                             then map_of expectedParams (Name param) = Some True
                             else True)
              (Parameters operation);
          validParams =
            fold addMissingParameter (map fst (rangeMap ord expectedParams)) validParams
      in operation\<lparr>Parameters := validParams\<rparr>)"

definition validatePathParameters :: "order \<Rightarrow> string \<Rightarrow> PathItem \<Rightarrow> string \<times> PathItem" where
  "validatePathParameters ord path pathItem =
     (let pathParams = findBraceTokens path
      in (path, mapOperations (\<lambda>operation. validateOperationParameters ord operation pathParams)
                  pathItem))"

definition validatePaths :: "order \<Rightarrow> OpenAPISpec \<Rightarrow> OpenAPISpec" where
  "validatePaths ord spec =
     spec\<lparr>Paths := map (\<lambda>(path, pathItem). validatePathParameters ord path pathItem) (Paths spec)\<rparr>"

text \<open>
  \<open>ValidateAndCleanSpec\<close>. \<open>validateSchemas\<close> and \<open>validatePaths\<close> return \<open>nil\<close> on every
  path, so the error returns of \<open>ValidateAndCleanSpec\<close> are never taken and its effect is
  the document it leaves behind.
\<close>

definition ValidateAndCleanSpec :: "order \<Rightarrow> OpenAPISpec \<Rightarrow> OpenAPISpec" where
  "ValidateAndCleanSpec ord spec =
     removeInvalidReferences (validatePaths ord (validateSchemas ord (cleanAllSchemaNames ord spec)))"

section \<open>Generator: the document (generator.go)\<close>

definition errorResponseSchema :: Schema where
  "errorResponseSchema =
     set_Properties
       [(''error'', set_Description ''Error message'' (set_Type ''string'' emptySchema)),
        (''code'', set_Description ''Error code'' (set_Type ''integer'' emptySchema))]
       (set_Type ''object'' emptySchema)"

definition standardResponseSchema :: Schema where
  "standardResponseSchema =
     set_Properties
       [(''success'', set_Description ''Indicates if the operation was successful''
                        (set_Type ''boolean'' emptySchema)),
        (''message'', set_Description ''Response message'' (set_Type ''string'' emptySchema)),
        (''data'', set_AdditionalProperties (Some (Inl True))
                     (set_Description ''Response data'' (set_Type ''object'' emptySchema)))]
       (set_Type ''object'' emptySchema)"

text \<open>The first loop of \<open>Generate\<close> and the two baseline schemas.\<close>

definition generateSchemas :: "order \<Rightarrow> (string \<times> Model) list \<Rightarrow> (string \<times> Schema) list" where
  "generateSchemas ord models =
     (let schemas =
            fold (\<lambda>(key, model) m.
                    AList.update (cleanSchemaName (Model_Name model)) (generateSchemaFromModel model) m)
              (rangeMap ord models) [];
          schemas = (if map_of schemas ''ErrorResponse'' = None
                     then AList.update ''ErrorResponse'' errorResponseSchema schemas else schemas)
      in if map_of schemas ''StandardResponse'' = None
         then AList.update ''StandardResponse'' standardResponseSchema schemas else schemas)"

text \<open>
  The loop of \<open>Generate\<close> over the routes: the keys already processed, the path map and
  the set of tags, and one turn of the loop.
\<close>

record routeLoop =
  processedPaths :: "(string \<times> bool) list"
  loop_Paths :: "(string \<times> PathItem) list"
  loop_tags :: "(string \<times> bool) list"

definition zeroPathItem :: PathItem where
  "zeroPathItem = \<lparr>Get = None, Post = None, Put = None, Delete = None, Patch = None\<rparr>"

definition setOperation :: "string \<Rightarrow> Operation \<Rightarrow> PathItem \<Rightarrow> PathItem" where
  "setOperation method operation pathItem =
     (let m = ToLower method
      in if m = ''get'' then pathItem\<lparr>Get := Some operation\<rparr>
         else if m = ''post'' then pathItem\<lparr>Post := Some operation\<rparr>
         else if m = ''put'' then pathItem\<lparr>Put := Some operation\<rparr>
         else if m = ''delete'' then pathItem\<lparr>Delete := Some operation\<rparr>
         else if m = ''patch'' then pathItem\<lparr>Patch := Some operation\<rparr>
         else pathItem)"

definition generateRoute :: "Route \<Rightarrow> routeLoop \<Rightarrow> routeLoop" where
  "generateRoute route st =
     (let openAPIPath = convertPathFormat (Route_Path route);
          pathKey = Method route @ '':'' @ openAPIPath
      in if map_of (processedPaths st) pathKey = Some True then st
         else (let pathItem = (case map_of (loop_Paths st) openAPIPath of
                                 Some item \<Rightarrow> item
                               | None \<Rightarrow> zeroPathItem);
                   operation = generateOperation route
               in \<lparr>processedPaths = AList.update pathKey True (processedPaths st),
                   loop_Paths = AList.update openAPIPath
                                  (setOperation (Method route) operation pathItem) (loop_Paths st),
                   loop_tags = fold (\<lambda>tag m. AList.update tag True m) (Route_Tags route)
                                 (loop_tags st)\<rparr>))"

definition generateRoutes :: "Route list \<Rightarrow> routeLoop" where
  "generateRoutes routes =
     fold generateRoute routes \<lparr>processedPaths = [], loop_Paths = [], loop_tags = []\<rparr>"

text \<open>The document of \<open>Generate\<close> before \<open>ValidateAndCleanSpec\<close> is called on it.\<close>

definition draftSpec :: "order \<Rightarrow> Config \<Rightarrow> Analysis \<Rightarrow> OpenAPISpec" where
  "draftSpec ord config analysis =
     (let st = generateRoutes (Routes analysis)
      in \<lparr>OpenAPI = ''3.0.3'',
          Spec_Info = \<lparr>Info_Title = Config_Title config,
                       Info_Description = Config_Description config,
                       Info_Version = Config_Version config\<rparr>,
          Servers = [\<lparr>URL = ServerURL config, Server_Description = ''Development server''\<rparr>],
          Paths = loop_Paths st,
          Spec_Components =
            \<lparr>Schemas = generateSchemas ord (Models analysis),
             SecuritySchemes =
               [(''bearerAuth'',
                 \<lparr>SecurityScheme_Type = ''http'', Scheme = ''bearer'', BearerFormat = ''JWT'',
                  SecurityScheme_Description = ''Authorization header using Bearer token''\<rparr>)]\<rparr>,
          Tags = map (\<lambda>(tagName, _).
                        \<lparr>Tag_Name = tagName, Tag_Description = generateTagDescription tagName\<rparr>)
                   (rangeMap ord (loop_tags st))\<rparr>)"

definition Generate :: "order \<Rightarrow> Config \<Rightarrow> Analysis \<Rightarrow> OpenAPISpec" where
  "Generate ord config analysis = ValidateAndCleanSpec ord (draftSpec ord config analysis)"

text \<open>The names between braces in a path.\<close>

definition pathTokenNames :: "string \<Rightarrow> string list" where
  "pathTokenNames path = map (\<lambda>m. m ! 1) (findBraceTokens path)"

definition isPathParameter :: "OpParameter \<Rightarrow> bool" where
  "isPathParameter param = (In param = ''path'')"

section \<open>Generator: what a route list should give\<close>

text \<open>
  \<open>isHTTPMethod\<close> of the analyzer (utils.go): the methods of the routes that the route
  parser emits.
\<close>

definition isHTTPMethod :: "string \<Rightarrow> bool" where
  "isHTTPMethod method =
     (method \<in> set [''GET'', ''POST'', ''PUT'', ''DELETE'', ''PATCH'', ''HEAD'', ''OPTIONS''])"

text \<open>
  The first route of a list with a given method and normalized path, and the path item
  that holds, under each of its five verbs, the operation generated from that route.
\<close>

definition firstRoute :: "Route list \<Rightarrow> string \<Rightarrow> string \<Rightarrow> Route option" where
  "firstRoute routes method path =
     find (\<lambda>r. Method r = method \<and> convertPathFormat (Route_Path r) = path) routes"

definition firstRoutesItem :: "Route list \<Rightarrow> string \<Rightarrow> PathItem" where
  "firstRoutesItem routes path =
     \<lparr>Get = map_option generateOperation (firstRoute routes ''GET'' path),
      Post = map_option generateOperation (firstRoute routes ''POST'' path),
      Put = map_option generateOperation (firstRoute routes ''PUT'' path),
      Delete = map_option generateOperation (firstRoute routes ''DELETE'' path),
      Patch = map_option generateOperation (firstRoute routes ''PATCH'' path)\<rparr>"

text \<open>
  What \<open>ValidateAndCleanSpec\<close> does to one operation under a path: its references are
  updated, its path parameters reconciled, its invalid references removed.
\<close>

definition finishOperation ::
  "order \<Rightarrow> (string \<times> string) list \<Rightarrow> string list \<Rightarrow> string \<Rightarrow> Operation \<Rightarrow> Operation" where
  "finishOperation ord names validSchemas path operation =
     removeInvalidRefsFromOperation validSchemas
       (validateOperationParameters ord (updateOperationReferences names operation)
          (findBraceTokens path))"

section \<open>The references of a document\<close>

text \<open>
  Every non-empty \<open>$ref\<close> of a schema tree: the schema's own, those of its properties, of
  its items and of its additional-properties schema.
\<close>

primrec schemaRefs :: "Schema \<Rightarrow> string list" where
  "schemaRefs (Schema t f props items req ap ref ex d en df) =
     (if ref \<noteq> '''' then [ref] else []) @
     concat (map snd (map (map_prod id schemaRefs) props)) @
     (case map_option schemaRefs items of None \<Rightarrow> [] | Some rs \<Rightarrow> rs) @
     (case map_option (map_sum id schemaRefs) ap of Some (Inr rs) \<Rightarrow> rs | _ \<Rightarrow> [])"

definition contentRefs :: "(string \<times> MediaType) list \<Rightarrow> string list" where
  "contentRefs content = concat (map (\<lambda>(mediaType, c). schemaRefs (MediaType_Schema c)) content)"

definition operationRefs :: "Operation \<Rightarrow> string list" where
  "operationRefs operation =
     concat (map (\<lambda>param. schemaRefs (OpParameter_Schema param)) (Parameters operation)) @
     (case RequestBody operation of
        None \<Rightarrow> []
      | Some rb \<Rightarrow> contentRefs (RequestBody_Content rb)) @
     concat (map (\<lambda>(statusCode, response). contentRefs (Response_Content response))
               (Responses operation))"

definition itemOperations :: "PathItem \<Rightarrow> Operation list" where
  "itemOperations pathItem =
     concat (map (\<lambda>operation. case operation of None \<Rightarrow> [] | Some op \<Rightarrow> [op])
               [Get pathItem, Post pathItem, Put pathItem, Delete pathItem, Patch pathItem])"

definition specRefs :: "OpenAPISpec \<Rightarrow> string list" where
  "specRefs spec =
     concat (map (\<lambda>(name, schema). schemaRefs schema) (Schemas (Spec_Components spec))) @
     concat (map (\<lambda>(path, pathItem). concat (map operationRefs (itemOperations pathItem)))
               (Paths spec))"

text \<open>
  A reference in the form the generator writes: the prefix of the schema table followed by
  a name.
\<close>

definition prefixed :: "string \<Rightarrow> bool" where
  "prefixed r = (\<exists>name. r = schemaPrefix @ name)"

text \<open>
  An operation as \<open>generateOperation\<close> builds it: no parameter schema holds a reference,
  and every reference of the request body and of the responses has the prefix.
\<close>

definition cleanOperation :: "Operation \<Rightarrow> bool" where
  "cleanOperation operation \<longleftrightarrow>
     (\<forall>param \<in> set (Parameters operation). schemaRefs (OpParameter_Schema param) = []) \<and>
     (\<forall>r \<in> set (operationRefs operation). prefixed r)"

section \<open>Two documents up to the order of the parameters\<close>



text \<open>
  A schema with no properties at any depth; a schema whose property schemas, items and
  additional-properties schema have none; and two schemas that differ at most in the order
  in which their properties are listed.
\<close>

primrec propertyFree :: "Schema \<Rightarrow> bool" where
  "propertyFree (Schema t f props items req ap ref ex d en df) =
     (props = [] \<and>
      (case map_option propertyFree items of None \<Rightarrow> True | Some b \<Rightarrow> b) \<and>
      (case map_option (map_sum id propertyFree) ap of Some (Inr b) \<Rightarrow> b | _ \<Rightarrow> True))"

definition flatSchema :: "Schema \<Rightarrow> bool" where
  "flatSchema s \<longleftrightarrow>
     list_all (\<lambda>(propName, propSchema). propertyFree propSchema) (Properties s) \<and>
     (case Items s of None \<Rightarrow> True | Some items \<Rightarrow> propertyFree items) \<and>
     (case AdditionalProperties s of Some (Inr additional) \<Rightarrow> propertyFree additional | _ \<Rightarrow> True)"

definition sameSchema :: "Schema \<Rightarrow> Schema \<Rightarrow> bool" where
  "sameSchema a b \<longleftrightarrow>
     set_Properties [] a = set_Properties [] b \<and> mset (Properties a) = mset (Properties b)"

text \<open>
  The names under which \<open>Generate\<close> stores schemas, and an analysis in which no two names
  collide: the model table is a map, no two models have the same cleaned schema name, no
  two properties of a model schema have the same cleaned property name, and no two schema
  names differ only in the case of their letters.
\<close>

definition schemaNames :: "(string \<times> Model) list \<Rightarrow> string list" where
  "schemaNames models =
     ''ErrorResponse'' # ''StandardResponse'' #
     map (\<lambda>(key, model). cleanSchemaName (Model_Name model)) models"

definition collisionFree :: "Analysis \<Rightarrow> bool" where
  "collisionFree analysis \<longleftrightarrow>
     distinct (map fst (Models analysis)) \<and>
     distinct (map (\<lambda>(key, model). cleanSchemaName (Model_Name model)) (Models analysis)) \<and>
     list_all (\<lambda>(key, model).
                 distinct (map (\<lambda>(propName, propSchema). cleanPropertyName propName)
                             (Properties (generateSchemaFromModel model))))
       (Models analysis) \<and>
     distinct (map ToLower (remdups (schemaNames (Models analysis))))"

section \<open>Example inputs\<close>

text \<open>
  Two files of the model directory that both declare a struct \<open>User\<close>: \<open>a.go\<close> with a
  field \<open>ID int\<close>, \<open>b.go\<close> with a field \<open>Name string\<close>.
\<close>

definition userWithID :: GenDecl where
  "userWithID = \<lparr>Tok = tok_TYPE, GenDecl_Doc = None,
     Specs = [TypeSpec ''User'' (StructType
       [\<lparr>Names = [''ID''], Type = Ident ''int'', Tag = None, Doc = None\<rparr>])]\<rparr>"

definition userWithName :: GenDecl where
  "userWithName = \<lparr>Tok = tok_TYPE, GenDecl_Doc = None,
     Specs = [TypeSpec ''User'' (StructType
       [\<lparr>Names = [''Name''], Type = Ident ''string'', Tag = None, Doc = None\<rparr>])]\<rparr>"

definition twoUserFiles :: FileTree where
  "twoUserFiles = Directory
     [(''a.go'', RegularFile (Parsed [userWithID])),
      (''b.go'', RegularFile (Parsed [userWithName]))]"


text \<open>
  A route \<open>GET /users/:id/posts/:postId\<close> whose declared parameters are a path parameter
  \<open>userId\<close>, which the path does not have, and a query parameter \<open>q\<close>; its response model
  \<open>Ghost\<close> is no model of the analysis.
\<close>

definition postsRoute :: Route where
  "postsRoute =
     \<lparr>Route_Path = ''/users/:id/posts/:postId'', Method = ''GET'', Handler = ''ListPosts'',
      Middleware = [],
      Route_RequestBody = None,
      Route_Response = Some \<lparr>Model_Name = ''Ghost'', Package = ''sdk'', Fields = [],
                              Model_Description = ''''\<rparr>,
      Route_Parameters =
        [\<lparr>Parameter_Name = ''userId'', Parameter_In = ''path'', Parameter_Required = True,
          Parameter_Type = ''string'', Parameter_Example = '''', Parameter_Description = '''',
          Parameter_Default = None, Parameter_Enum = []\<rparr>,
         \<lparr>Parameter_Name = ''q'', Parameter_In = ''query'', Parameter_Required = False,
          Parameter_Type = ''string'', Parameter_Example = '''', Parameter_Description = '''',
          Parameter_Default = None, Parameter_Enum = []\<rparr>],
      Route_Tags = [''users'']\<rparr>"

text \<open>
  The route above with two declared path parameters, both named \<open>id\<close>; and the analysis
  that holds only this route.
\<close>

definition idParameter :: Parameter where
  "idParameter =
     \<lparr>Parameter_Name = ''id'', Parameter_In = ''path'', Parameter_Required = True,
      Parameter_Type = ''string'', Parameter_Example = '''', Parameter_Description = '''',
      Parameter_Default = None, Parameter_Enum = []\<rparr>"

definition twoIdsRoute :: Route where
  "twoIdsRoute = postsRoute\<lparr>Route_Parameters := [idParameter, idParameter]\<rparr>"

definition twoIdsAnalysis :: Analysis where
  "twoIdsAnalysis = \<lparr>Routes = [twoIdsRoute], Models = []\<rparr>"

text \<open>
  The struct \<open>User\<close> with a field \<open>ID int\<close> tagged \<open>json:"id"\<close>, a field \<open>Name string\<close> tagged
  \<open>json:"name,omitempty"\<close> and an untagged field \<open>Age int\<close>; and the struct \<open>Pair\<close> with a
  field \<open>Name string\<close> tagged \<open>json:"name,omitempty"\<close> and a field \<open>Alias string\<close> tagged
  \<open>json:"name"\<close>.
\<close>

definition jsonTagLiteral :: "string \<Rightarrow> string" where
  "jsonTagLiteral body = ''`json:'' @ [CHR 0x22] @ body @ [CHR 0x22] @ ''`''"

definition userStruct :: "ast_Field list" where
  "userStruct =
     [\<lparr>Names = [''ID''], Type = Ident ''int'', Tag = Some (jsonTagLiteral ''id''), Doc = None\<rparr>,
      \<lparr>Names = [''Name''], Type = Ident ''string'',
       Tag = Some (jsonTagLiteral ''name,omitempty''), Doc = None\<rparr>,
      \<lparr>Names = [''Age''], Type = Ident ''int'', Tag = None, Doc = None\<rparr>]"

definition pairStruct :: "ast_Field list" where
  "pairStruct =
     [\<lparr>Names = [''Name''], Type = Ident ''string'',
       Tag = Some (jsonTagLiteral ''name,omitempty''), Doc = None\<rparr>,
      \<lparr>Names = [''Alias''], Type = Ident ''string'',
       Tag = Some (jsonTagLiteral ''name''), Doc = None\<rparr>]"

text \<open>
  An analysis with one model \<open>Order\<close>, whose field \<open>Owner\<close> has the type \<open>Person\<close> that is
  no model, and with the route above; and a configuration.
\<close>

definition orderModel :: Model where
  "orderModel =
     \<lparr>Model_Name = ''Order'', Package = ''sdk'',
      Fields = [\<lparr>Field_Name = ''Owner'', Field_Type = ''Person'', JSONTag = ''owner'',
                 OriginalType = ''Person'', Field_Required = True, Field_Description = '''',
                 Field_Example = None\<rparr>],
      Model_Description = ''''\<rparr>"

definition orderAnalysis :: Analysis where
  "orderAnalysis = \<lparr>Routes = [postsRoute], Models = [(''Order'', orderModel)]\<rparr>"

definition exampleConfig :: Config where
  "exampleConfig =
     \<lparr>Config_Title = ''API'', Config_Version = ''1.0.0'', Config_Description = ''Generated'',
      ServerURL = ''http://localhost:3000''\<rparr>"

text \<open>
  The route \<open>GET /v1/users\<close> registered twice, with the handlers \<open>ListUsers\<close> and
  \<open>ListUsersAgain\<close>; and the route \<open>HEAD /v1/users\<close>.
\<close>

definition usersRoute :: "string \<Rightarrow> string \<Rightarrow> Route" where
  "usersRoute method handler =
     \<lparr>Route_Path = ''/v1/users'', Method = method, Handler = handler, Middleware = [],
      Route_RequestBody = None, Route_Response = None, Route_Parameters = [],
      Route_Tags = [''users'']\<rparr>"

definition usersTwice :: Analysis where
  "usersTwice =
     \<lparr>Routes = [usersRoute ''GET'' ''ListUsers'', usersRoute ''GET'' ''ListUsersAgain''],
      Models = []\<rparr>"

definition headTwice :: Analysis where
  "headTwice =
     \<lparr>Routes = [usersRoute ''HEAD'' ''ProbeUsers'', usersRoute ''HEAD'' ''ProbeUsers''],
      Models = []\<rparr>"

section \<open>Properties\<close>

subsection \<open>Helper lemmas on characters\<close>

lemma upper_not_lower: "isUpper c \<Longrightarrow> \<not> isLower c \<and> \<not> isDigit c"
proof -
  assume u: "isUpper c"
  have a: "\<not> CHR ''a'' \<le> CHR ''Z''" by simp
  have b: "\<not> CHR ''A'' \<le> CHR ''9''" by simp
  from u a b show ?thesis
    unfolding isUpper_def isLower_def isDigit_def
    by (meson order_trans)
qed

subsection \<open>Response-type inference\<close>

text \<open>
  C8, as the code has it. The prefix table is applied only when something follows the
  prefix: for a non-empty rest, \<open>Get<rest>\<close> gives \<open><rest>Response\<close>, \<open>List<rest>\<close> gives
  \<open><rest>ListResponse\<close>, \<open>Search<rest>\<close> gives \<open>Search<rest>Response\<close>, \<open>Validate<rest>\<close>
  gives \<open><rest>ValidationResponse\<close> and \<open>Check<rest>\<close> gives \<open><rest>CheckResponse\<close>. A method
  name that starts with no prefix of the table, and a method name that is exactly one of
  the table's prefixes, gives \<open><methodName>Response\<close>.
\<close>

theorem inferResponseType_table:
  "(rest \<noteq> [] \<longrightarrow>
      inferResponseTypeFromMethodName (''Get'' @ rest) = rest @ ''Response'' \<and>
      inferResponseTypeFromMethodName (''List'' @ rest) = rest @ ''ListResponse'' \<and>
      inferResponseTypeFromMethodName (''Search'' @ rest) = ''Search'' @ rest @ ''Response'' \<and>
      inferResponseTypeFromMethodName (''Validate'' @ rest) = rest @ ''ValidationResponse'' \<and>
      inferResponseTypeFromMethodName (''Check'' @ rest) = rest @ ''CheckResponse'') \<and>
   ((\<forall>(pfx, before, after) \<in> set prefixMappings. \<not> HasPrefix m pfx) \<longrightarrow>
      inferResponseTypeFromMethodName m = m @ ''Response'') \<and>
   (p \<in> fst ` set prefixMappings \<longrightarrow>
      inferResponseTypeFromMethodName p = p @ ''Response'')"
proof (intro conjI impI)
  assume r: "rest \<noteq> []"
  show "inferResponseTypeFromMethodName (''Get'' @ rest) = rest @ ''Response''"
    using r by (simp add: inferResponseTypeFromMethodName_def prefixMappings_def
        HasPrefix_def TrimPrefix_def)
  show "inferResponseTypeFromMethodName (''List'' @ rest) = rest @ ''ListResponse''"
    using r by (simp add: inferResponseTypeFromMethodName_def prefixMappings_def
        HasPrefix_def TrimPrefix_def)
  show "inferResponseTypeFromMethodName (''Search'' @ rest) = ''Search'' @ rest @ ''Response''"
    using r by (simp add: inferResponseTypeFromMethodName_def prefixMappings_def
        HasPrefix_def TrimPrefix_def)
  show "inferResponseTypeFromMethodName (''Validate'' @ rest) = rest @ ''ValidationResponse''"
    using r by (simp add: inferResponseTypeFromMethodName_def prefixMappings_def
        HasPrefix_def TrimPrefix_def)
  show "inferResponseTypeFromMethodName (''Check'' @ rest) = rest @ ''CheckResponse''"
    using r by (simp add: inferResponseTypeFromMethodName_def prefixMappings_def
        HasPrefix_def TrimPrefix_def)
next
  assume "\<forall>(pfx, before, after) \<in> set prefixMappings. \<not> HasPrefix m pfx"
  then show "inferResponseTypeFromMethodName m = m @ ''Response''"
    by (simp add: inferResponseTypeFromMethodName_def prefixMappings_def)
next
  assume "p \<in> fst ` set prefixMappings"
  then have "p \<in> {''Get'', ''Fetch'', ''List'', ''Search'', ''Find'', ''Create'', ''Update'',
      ''Delete'', ''Save'', ''Parse'', ''Process'', ''Generate'', ''Calculate'', ''Validate'',
      ''Check''}"
    unfolding prefixMappings_def by simp
  then show "inferResponseTypeFromMethodName p = p @ ''Response''"
    by (elim insertE emptyE)
      (simp_all add: inferResponseTypeFromMethodName_def prefixMappings_def
        HasPrefix_def TrimPrefix_def)
qed

theorem inferResponseType_table_witness:
  "inferResponseTypeFromMethodName ''GetUser'' = ''UserResponse'' \<and>
   inferResponseTypeFromMethodName ''ListUser'' = ''UserListResponse'' \<and>
   inferResponseTypeFromMethodName ''SearchUser'' = ''SearchUserResponse'' \<and>
   inferResponseTypeFromMethodName ''ValidateUser'' = ''UserValidationResponse'' \<and>
   inferResponseTypeFromMethodName ''CheckUser'' = ''UserCheckResponse'' \<and>
   inferResponseTypeFromMethodName ''Ping'' = ''PingResponse'' \<and>
   inferResponseTypeFromMethodName ''Validate'' = ''ValidateResponse''"
  using inferResponseType_table [of "''User''" "''Ping''" "''Validate''"]
  by (simp add: prefixMappings_def HasPrefix_def)

text \<open>
  C8 as stated fails at the method name \<open>Get\<close>: it starts with \<open>Get\<close>, its rest is empty,
  and the result is \<open>GetResponse\<close>, not \<open><rest>Response\<close>.
\<close>

theorem inferResponseType_Get_counterexample:
  "HasPrefix ''Get'' ''Get'' \<and>
   inferResponseTypeFromMethodName ''Get'' = ''GetResponse'' \<and>
   inferResponseTypeFromMethodName ''Get'' \<noteq> TrimPrefix ''Get'' ''Get'' @ ''Response''"
  by (simp add: inferResponseTypeFromMethodName_def prefixMappings_def
      HasPrefix_def TrimPrefix_def)

subsection \<open>The two snake-case transforms\<close>

lemma replaceLowerUpper_snakeLoop:
  "upperAfterLower p s \<Longrightarrow> replaceLowerUpper (p # s) = p # snakeLoop (Suc i) s"
proof (induction s arbitrary: p i rule: length_induct)
  case (1 s)
  show ?case
  proof (cases s)
    case Nil
    then show ?thesis by simp
  next
    case (Cons c cs)
    show ?thesis
    proof (cases "(isLower p \<or> isDigit p) \<and> isUpper c")
      case False
      with 1 Cons show ?thesis by (auto simp: isUpper_def)
    next
      case True
      show ?thesis
      proof (cases cs)
        case Nil
        with True \<open>s = c # cs\<close> show ?thesis by (simp add: isUpper_def)
      next
        case (Cons d ds)
        with 1(2) True \<open>s = c # cs\<close> have nd: "\<not> isUpper d"
          using upper_not_lower [of c] by auto
        from 1 Cons \<open>s = c # cs\<close>
        have "replaceLowerUpper (d # ds) = d # snakeLoop (Suc (Suc (Suc i))) ds"
          by simp
        with True Cons \<open>s = c # cs\<close> nd show ?thesis by (simp add: isUpper_def)
      qed
    qed
  qed
qed

text \<open>
  Where the two transforms agree: on every input in which each upper-case letter after
  the first byte directly follows a lower-case letter or a digit.
\<close>

lemma toSnakeCase_agree_on_camelHumps:
  "camelHumps s \<Longrightarrow> analyzer_toSnakeCase s = toSnakeCase s"
proof (cases s)
  case Nil
  then show ?thesis by (simp add: analyzer_toSnakeCase_def toSnakeCase_def)
next
  case (Cons c cs)
  assume "camelHumps s"
  with Cons have "upperAfterLower c cs" by (simp add: camelHumps_def)
  then have "replaceLowerUpper (c # cs) = c # snakeLoop (Suc 0) cs"
    by (rule replaceLowerUpper_snakeLoop)
  with Cons show ?thesis by (simp add: analyzer_toSnakeCase_def toSnakeCase_def)
qed

lemma toSnakeCase_agree_userName:
  "camelHumps ''userName'' \<and> analyzer_toSnakeCase ''userName'' = toSnakeCase ''userName''"
proof -
  have h: "camelHumps ''userName''"
    by (simp add: camelHumps_def isUpper_def isLower_def isDigit_def)
  from h toSnakeCase_agree_on_camelHumps [OF h] show ?thesis by simp
qed

text \<open>
  C10. The analyzer's and the generator's snake-case transforms are to return the same
  string on every input. On the field name \<open>UserID\<close> they do not: the analyzer's
  transform, which writes an underscore before every upper-case letter after the first
  byte, gives the query parameter \<open>user_i_d\<close>; the generator's, which writes one only
  between a lower-case letter or a digit and an upper-case letter, gives the schema
  property \<open>user_id\<close>.
\<close>

theorem toSnakeCase_UserID_diverges:
  "analyzer_toSnakeCase ''UserID'' = ''user_i_d'' \<and>
   toSnakeCase ''UserID'' = ''user_id'' \<and>
   analyzer_toSnakeCase ''UserID'' \<noteq> toSnakeCase ''UserID''"
  by (simp add: analyzer_toSnakeCase_def toSnakeCase_def ToLower_def toLowerChar_def
      isUpper_def isLower_def isDigit_def HasPrefix_def)

subsection \<open>The model table of the declaration scanner\<close>

lemma parseSpecs_fold:
  "parseSpecs pkg doc specs a = fold (register pkg) (structSpecs doc specs) a"
  by (induction pkg doc specs a rule: parseSpecs.induct)
     (simp_all add: register_def parseStruct_def Let_def)

lemma parseDecls_fold:
  "parseDecls pkg decls a = fold (register pkg) (structDecls decls) a"
  by (induction decls arbitrary: a) (simp_all add: parseSpecs_fold)

lemma fold_register_lookup:
  "map_of (Models (fold (register pkg) ds a)) n =
     (case find (\<lambda>(name, st, doc). cleanTypeName name = n) (rev ds) of
        Some (name, st, doc) \<Rightarrow> Some ((parseStruct pkg name st doc)\<lparr>Model_Name := n\<rparr>)
      | None \<Rightarrow> map_of (Models a) n)"
proof (induction ds rule: rev_induct)
  case Nil
  then show ?case by simp
next
  case (snoc d ds)
  obtain name st doc where d: "d = (name, st, doc)" by (cases d)
  show ?case using snoc
    by (simp add: d register_def update_conv')
qed

text \<open>
  C5, as the code has it. Insertion into the model table is last-writer-wins: after a
  file has been scanned, the table holds under a name the model built from the last
  struct declaration of the file with that (cleaned) name, whatever the table held under
  the name before (from the same file or from a file scanned earlier); a name that no
  declaration of the file has keeps its entry.
\<close>

theorem parseSDKFile_last_writer_wins:
  "parseSDKFile pkg path (Parsed decls) a = Inr a' \<Longrightarrow>
   map_of (Models a') n =
     (case find (\<lambda>(name, st, doc). cleanTypeName name = n) (rev (structDecls decls)) of
        Some (name, st, doc) \<Rightarrow> Some ((parseStruct pkg name st doc)\<lparr>Model_Name := n\<rparr>)
      | None \<Rightarrow> map_of (Models a) n)"
  by (auto simp: parseSDKFile_def parseDecls_fold fold_register_lookup)

theorem parseSDKFile_last_writer_wins_witness:
  "map_of (Models (parseDecls ''sdk'' [userWithID, userWithName] \<lparr>Routes = [], Models = []\<rparr>))
     ''User'' =
   Some \<lparr>Model_Name = ''User'', Package = ''sdk'',
         Fields = [\<lparr>Field_Name = ''Name'', Field_Type = ''string'', JSONTag = '''',
                    OriginalType = ''string'', Field_Required = True,
                    Field_Description = '''', Field_Example = None\<rparr>],
         Model_Description = ''''\<rparr>"
  using parseSDKFile_last_writer_wins
    [of "''sdk''" "''/p/sdk/a.go''" "[userWithID, userWithName]" "\<lparr>Routes = [], Models = []\<rparr>"
        "parseDecls ''sdk'' [userWithID, userWithName] \<lparr>Routes = [], Models = []\<rparr>" "''User''"]
  by (simp add: parseSDKFile_def userWithID_def userWithName_def cleanTypeName_def
      removeChar_def LastIndex_def parseStruct_def namedField_def IsExported_def isUpper_def
      Let_def)

text \<open>
  C5 as stated fails on two files \<open>a.go\<close> and \<open>b.go\<close> that both declare \<open>User\<close>: the table
  ends with the model of \<open>b.go\<close>, registered second, and not with the model of \<open>a.go\<close>.
\<close>

theorem parseSDKModels_first_writer_counterexample:
  "parseSDKModels ''sdk'' ''/p'' (Some twoUserFiles) \<lparr>Routes = [], Models = []\<rparr> =
     Inr \<lparr>Routes = [], Models = [(''User'',
       \<lparr>Model_Name = ''User'', Package = ''sdk'',
        Fields = [\<lparr>Field_Name = ''Name'', Field_Type = ''string'', JSONTag = '''',
                   OriginalType = ''string'', Field_Required = True,
                   Field_Description = '''', Field_Example = None\<rparr>],
        Model_Description = ''''\<rparr>)]\<rparr> \<and>
   parseStruct ''sdk'' ''User''
     [\<lparr>Names = [''ID''], Type = Ident ''int'', Tag = None, Doc = None\<rparr>] None \<noteq>
     \<lparr>Model_Name = ''User'', Package = ''sdk'',
      Fields = [\<lparr>Field_Name = ''Name'', Field_Type = ''string'', JSONTag = '''',
                 OriginalType = ''string'', Field_Required = True,
                 Field_Description = '''', Field_Example = None\<rparr>],
      Model_Description = ''''\<rparr>"
  by (simp add: parseSDKModels_def Walk_def twoUserFiles_def walkFn_def Join_def HasSuffix_def
      parseSDKFile_def userWithID_def userWithName_def parseStruct_def cleanTypeName_def
      removeChar_def LastIndex_def namedField_def IsExported_def isUpper_def Let_def)

subsection \<open>A missing model directory\<close>

text \<open>
  C6 at the failing input, a project root under which no \<open>sdk\<close> directory exists:
  \<open>filepath.Walk\<close> hands the error of the failed \<open>Lstat\<close> to the callback of
  \<open>parseSDKModels\<close>, the callback returns it, and \<open>Analyze\<close> returns an error and no
  \<open>Analysis\<close>, whatever the route parser would have done.
\<close>

theorem Analyze_missing_sdk_is_error:
  "Analyze parseRoutes sdkPackage projectPath None =
     Inl (Wrap ''failed to parse SDK models'' (PathError (Join projectPath ''sdk'')))"
  by (simp add: Analyze_def parseSDKModels_def Walk_def walkFn_def)

subsection \<open>Iteration orders and path-parameter reconciliation\<close>

lemma iterationOrder_set: "iterationOrder ord \<Longrightarrow> set (ord ks) = set ks"
  by (metis iterationOrder_def set_mset_mset)

lemma iterationOrder_distinct: "iterationOrder ord \<Longrightarrow> distinct ks \<Longrightarrow> distinct (ord ks)"
  by (metis iterationOrder_def mset_eq_imp_distinct_iff)

lemma set_map_filter_eq: "set (List.map_filter g xs) = {y. \<exists>x \<in> set xs. g x = Some y}"
  by (induction xs) (auto split: option.splits)

lemma rangeMap_set:
  assumes "iterationOrder ord" "distinct (map fst m)"
  shows "set (rangeMap ord m) = set m"
proof -
  have "set (rangeMap ord m) = {(k, v). k \<in> set (ord (map fst m)) \<and> map_of m k = Some v}"
    by (auto simp: rangeMap_def set_map_filter_eq)
  also have "\<dots> = {(k, v). k \<in> fst ` set m \<and> map_of m k = Some v}"
    using iterationOrder_set [OF assms(1)] by simp
  also have "\<dots> = set m"
    using assms(2) by (auto simp: rev_image_eqI dest: map_of_SomeD)
  finally show ?thesis .
qed

lemma rangeMap_subset: "set (rangeMap ord m) \<subseteq> set m"
  by (auto simp: rangeMap_def set_map_filter_eq dest: map_of_SomeD)

lemma findBraceTokens_length: "m \<in> set (findBraceTokens s) \<Longrightarrow> length m = 2"
  by (induction s rule: findBraceTokens.induct) (auto simp: Let_def split: if_splits)

lemma expected_fold_map_of:
  "map_of (fold (\<lambda>param m. if 1 < length param then AList.update (param ! 1) True m else m) ps m0) n
     = (if \<exists>p \<in> set ps. 1 < length p \<and> p ! 1 = n then Some True else map_of m0 n)"
  by (induction ps arbitrary: m0) (auto simp: update_conv')

lemma expected_fold_distinct:
  "distinct (map fst m0) \<Longrightarrow>
   distinct (map fst (fold (\<lambda>param m. if 1 < length param then AList.update (param ! 1) True m else m) ps m0))"
  by (induction ps arbitrary: m0) (auto simp: distinct_update)

lemma expectedParamsMap_distinct: "distinct (map fst (expectedParamsMap ps))"
  unfolding expectedParamsMap_def by (rule expected_fold_distinct) simp

lemma expectedParamsMap_lookup:
  "map_of (expectedParamsMap (findBraceTokens path)) n = Some True \<longleftrightarrow> n \<in> set (pathTokenNames path)"
proof -
  have "map_of (expectedParamsMap (findBraceTokens path)) n = Some True \<longleftrightarrow>
        (\<exists>p \<in> set (findBraceTokens path). 1 < length p \<and> p ! 1 = n)"
    unfolding expectedParamsMap_def expected_fold_map_of by simp
  also have "\<dots> \<longleftrightarrow> n \<in> set (pathTokenNames path)"
    using findBraceTokens_length [of _ path] by (fastforce simp: pathTokenNames_def)
  finally show ?thesis .
qed

lemma expectedParamsMap_keys:
  "fst ` set (expectedParamsMap (findBraceTokens path)) = set (pathTokenNames path)"
proof -
  let ?e = "expectedParamsMap (findBraceTokens path)"
  have "fst ` set ?e = dom (map_of ?e)" by (simp add: dom_map_of_conv_image_fst)
  also have "\<dots> = {n. \<exists>p \<in> set (findBraceTokens path). 1 < length p \<and> p ! 1 = n}"
    unfolding expectedParamsMap_def expected_fold_map_of by (auto simp: dom_def split: if_splits)
  also have "\<dots> = set (pathTokenNames path)"
    using findBraceTokens_length [of _ path] by (fastforce simp: pathTokenNames_def)
  finally show ?thesis .
qed

lemma addMissing_fold:
  "set (fold addMissingParameter ns acc) \<subseteq> set acc \<union> injectedParameter ` set ns \<and>
   set acc \<subseteq> set (fold addMissingParameter ns acc) \<and>
   (\<forall>n \<in> set ns. \<exists>q \<in> set (fold addMissingParameter ns acc). In q = ''path'' \<and> Name q = n) \<and>
   (\<forall>p \<in> set (fold addMissingParameter ns acc). p \<notin> set acc \<longrightarrow>
       (\<exists>n \<in> set ns. p = injectedParameter n \<and> \<not> (\<exists>q \<in> set acc. In q = ''path'' \<and> Name q = n))) \<and>
   filter (\<lambda>p. In p \<noteq> ''path'') (fold addMissingParameter ns acc) = filter (\<lambda>p. In p \<noteq> ''path'') acc \<and>
   filter (\<lambda>p. p \<in> set acc) (fold addMissingParameter ns acc) = acc"
proof (induction ns arbitrary: acc)
  case Nil
  then show ?case by simp
next
  case (Cons n ns)
  let ?acc = "addMissingParameter n acc"
  note IH = Cons.IH [of ?acc]
  have sub: "set acc \<subseteq> set ?acc" by (auto simp: addMissingParameter_def)
  have has: "\<exists>q \<in> set ?acc. In q = ''path'' \<and> Name q = n"
    by (auto simp: addMissingParameter_def injectedParameter_def)
  have new: "set ?acc \<subseteq> set acc \<union> {injectedParameter n}"
    by (auto simp: addMissingParameter_def)
  have np: "filter (\<lambda>p. In p \<noteq> ''path'') ?acc = filter (\<lambda>p. In p \<noteq> ''path'') acc"
    by (auto simp: addMissingParameter_def injectedParameter_def)
  show ?case
  proof (intro conjI)
    show "set (fold addMissingParameter (n # ns) acc) \<subseteq> set acc \<union> injectedParameter ` set (n # ns)"
      using IH new by auto
    show "set acc \<subseteq> set (fold addMissingParameter (n # ns) acc)"
      using IH sub by auto
    show "\<forall>m \<in> set (n # ns). \<exists>q \<in> set (fold addMissingParameter (n # ns) acc). In q = ''path'' \<and> Name q = m"
      using IH has by auto
    show "\<forall>p \<in> set (fold addMissingParameter (n # ns) acc). p \<notin> set acc \<longrightarrow>
       (\<exists>m \<in> set (n # ns). p = injectedParameter m \<and> \<not> (\<exists>q \<in> set acc. In q = ''path'' \<and> Name q = m))"
    proof (intro ballI impI)
      fix p assume p: "p \<in> set (fold addMissingParameter (n # ns) acc)" and na: "p \<notin> set acc"
      show "\<exists>m \<in> set (n # ns). p = injectedParameter m \<and> \<not> (\<exists>q \<in> set acc. In q = ''path'' \<and> Name q = m)"
      proof (cases "p \<in> set ?acc")
        case True
        with na have "p = injectedParameter n \<and> \<not> (\<exists>q \<in> set acc. In q = ''path'' \<and> Name q = n)"
          by (auto simp: addMissingParameter_def split: if_splits)
        then show ?thesis by auto
      next
        case False
        with p IH obtain m where m: "m \<in> set ns" "p = injectedParameter m"
          and no: "\<not> (\<exists>q \<in> set ?acc. In q = ''path'' \<and> Name q = m)" by auto
        from no sub have "\<not> (\<exists>q \<in> set acc. In q = ''path'' \<and> Name q = m)" by blast
        with m show ?thesis by (intro bexI [of _ m]) simp_all
      qed
    qed
    show "filter (\<lambda>p. In p \<noteq> ''path'') (fold addMissingParameter (n # ns) acc) = filter (\<lambda>p. In p \<noteq> ''path'') acc"
      using IH np by simp
    show "filter (\<lambda>p. p \<in> set acc) (fold addMissingParameter (n # ns) acc) = acc"
    proof -
      have a: "filter (\<lambda>p. p \<in> set ?acc) (fold addMissingParameter ns ?acc) = ?acc"
        using IH by simp
      have "filter (\<lambda>p. p \<in> set acc) (fold addMissingParameter ns ?acc)
            = filter (\<lambda>p. p \<in> set acc) (filter (\<lambda>p. p \<in> set ?acc) (fold addMissingParameter ns ?acc))"
        using sub by (auto intro: filter_cong)
      also have "\<dots> = filter (\<lambda>p. p \<in> set acc) ?acc" by (simp only: a)
      also have "\<dots> = acc"
      proof (cases "\<exists>param \<in> set acc. In param = ''path'' \<and> Name param = n")
        case True
        then show ?thesis by (simp add: addMissingParameter_def)
      next
        case False
        then have "injectedParameter n \<notin> set acc"
          by (auto simp: injectedParameter_def)
        with False show ?thesis by (simp add: addMissingParameter_def)
      qed
      finally show ?thesis by simp
    qed
  qed
qed

lemma map_of_Some_key: "map_of m k = Some v \<Longrightarrow> k \<in> fst ` set m"
  by (force dest: map_of_SomeD)

lemma rangeMap_keys_mset:
  assumes "iterationOrder ord"
  shows "mset (map fst (rangeMap ord m)) = mset (map fst m)"
proof -
  have a: "map fst (List.map_filter (\<lambda>k. map_option (\<lambda>v. (k, v)) (map_of m k)) ks) =
             filter (\<lambda>k. k \<in> fst ` set m) ks" for ks
    by (induction ks)
      (auto simp: List.map_filter_simps map_of_eq_None_iff split: option.splits dest: map_of_Some_key)
  have "mset (map fst (rangeMap ord m)) = filter_mset (\<lambda>k. k \<in> fst ` set m) (mset (ord (map fst m)))"
    by (simp add: rangeMap_def a)
  also have "\<dots> = filter_mset (\<lambda>k. k \<in> fst ` set m) (mset (map fst m))"
    using assms by (simp add: iterationOrder_def)
  also have "\<dots> = mset (filter (\<lambda>k. k \<in> fst ` set m) (map fst m))"
    by (simp only: mset_filter)
  also have "filter (\<lambda>k. k \<in> fst ` set m) (map fst m) = map fst m"
    by (rule filter_True) simp
  finally show ?thesis .
qed

lemma addMissing_fold_explicit:
  "distinct ns \<Longrightarrow>
   fold addMissingParameter ns acc =
     acc @ map injectedParameter
             (filter (\<lambda>n. \<not> (\<exists>q \<in> set acc. In q = ''path'' \<and> Name q = n)) ns)"
proof (induction ns arbitrary: acc)
  case Nil
  then show ?case by simp
next
  case (Cons n ns)
  show ?case
  proof (cases "\<exists>q \<in> set acc. In q = ''path'' \<and> Name q = n")
    case True
    then have "addMissingParameter n acc = acc"
      by (simp add: addMissingParameter_def)
    with Cons True show ?thesis by simp
  next
    case False
    then have step: "addMissingParameter n acc = acc @ [injectedParameter n]"
      by (simp add: addMissingParameter_def)
    have "filter (\<lambda>m. \<not> (\<exists>q \<in> set (acc @ [injectedParameter n]). In q = ''path'' \<and> Name q = m)) ns =
          filter (\<lambda>m. \<not> (\<exists>q \<in> set acc. In q = ''path'' \<and> Name q = m)) ns"
      using Cons.prems by (intro filter_cong refl) (auto simp: injectedParameter_def)
    with Cons.IH [of "acc @ [injectedParameter n]"] Cons.prems False step
    show ?thesis by simp
  qed
qed

text \<open>
  The parameters of a reconciled operation, as sets: the names of the path-located ones,
  the non-path ones, the declared ones that are kept and the ones that are added.
\<close>

lemma reconciled_parameter_sets:
  assumes "iterationOrder ord"
  shows
    "Name ` {p \<in> set (Parameters (validateOperationParameters ord operation (findBraceTokens path))).
              In p = ''path''} = set (pathTokenNames path) \<and>
     filter (\<lambda>p. In p \<noteq> ''path'')
        (Parameters (validateOperationParameters ord operation (findBraceTokens path))) =
       filter (\<lambda>p. In p \<noteq> ''path'') (Parameters operation) \<and>
     filter (\<lambda>p. p \<in> set (Parameters operation))
        (Parameters (validateOperationParameters ord operation (findBraceTokens path))) =
       filter (\<lambda>p. In p = ''path'' \<longrightarrow> Name p \<in> set (pathTokenNames path)) (Parameters operation) \<and>
     (\<forall>p \<in> set (Parameters (validateOperationParameters ord operation (findBraceTokens path))).
        p \<notin> set (Parameters operation) \<longrightarrow>
          (\<exists>n \<in> set (pathTokenNames path). p = injectedParameter n \<and>
             \<not> (\<exists>q \<in> set (Parameters operation). In q = ''path'' \<and> Name q = n))) \<and>
     Name ` {p \<in> set (Parameters (validateOperationParameters ord operation
                (findBraceTokens ''/users/{id}/posts/{postId}''))). In p = ''path''} =
       {''id'', ''postId''}"
proof -
  have main: "Name ` {p \<in> set (Parameters (validateOperationParameters ord operation (findBraceTokens pth))).
              In p = ''path''} = set (pathTokenNames pth) \<and>
     filter (\<lambda>p. In p \<noteq> ''path'')
        (Parameters (validateOperationParameters ord operation (findBraceTokens pth))) =
       filter (\<lambda>p. In p \<noteq> ''path'') (Parameters operation) \<and>
     filter (\<lambda>p. p \<in> set (Parameters operation))
        (Parameters (validateOperationParameters ord operation (findBraceTokens pth))) =
       filter (\<lambda>p. In p = ''path'' \<longrightarrow> Name p \<in> set (pathTokenNames pth)) (Parameters operation) \<and>
     (\<forall>p \<in> set (Parameters (validateOperationParameters ord operation (findBraceTokens pth))).
        p \<notin> set (Parameters operation) \<longrightarrow>
          (\<exists>n \<in> set (pathTokenNames pth). p = injectedParameter n \<and>
             \<not> (\<exists>q \<in> set (Parameters operation). In q = ''path'' \<and> Name q = n)))" for pth
  proof -
    let ?e = "expectedParamsMap (findBraceTokens pth)"
    let ?T = "set (pathTokenNames pth)"
    let ?ps = "Parameters operation"
    let ?acc = "filter (\<lambda>p. In p = ''path'' \<longrightarrow> Name p \<in> ?T) ?ps"
    let ?ns = "map fst (rangeMap ord ?e)"
    let ?res = "fold addMissingParameter ?ns ?acc"
    have acc: "filter (\<lambda>param. if In param = ''path'' then map_of ?e (Name param) = Some True else True) ?ps
                 = ?acc"
      by (rule filter_cong) (auto simp: expectedParamsMap_lookup)
    have res: "Parameters (validateOperationParameters ord operation (findBraceTokens pth)) = ?res"
      by (simp add: validateOperationParameters_def Let_def acc)
    have ns: "set ?ns = ?T"
      using rangeMap_set [OF assms expectedParamsMap_distinct, of "findBraceTokens pth"]
      by (simp add: expectedParamsMap_keys)
    note F = addMissing_fold [of ?ns ?acc]
    from F have f1: "set ?res \<subseteq> set ?acc \<union> injectedParameter ` set ?ns" by blast
    from F have f2: "set ?acc \<subseteq> set ?res" by blast
    from F have f3: "\<forall>n \<in> set ?ns. \<exists>q \<in> set ?res. In q = ''path'' \<and> Name q = n" by blast
    from F have f4: "\<forall>p \<in> set ?res. p \<notin> set ?acc \<longrightarrow>
       (\<exists>n \<in> set ?ns. p = injectedParameter n \<and> \<not> (\<exists>q \<in> set ?acc. In q = ''path'' \<and> Name q = n))"
      by blast
    from F have f5: "filter (\<lambda>p. In p \<noteq> ''path'') ?res = filter (\<lambda>p. In p \<noteq> ''path'') ?acc" by blast
    from F have f6: "filter (\<lambda>p. p \<in> set ?acc) ?res = ?acc" by blast
    have c1: "Name ` {p \<in> set ?res. In p = ''path''} = ?T"
    proof (intro equalityI subsetI)
      fix n assume "n \<in> Name ` {p \<in> set ?res. In p = ''path''}"
      then obtain p where p: "p \<in> set ?res" "In p = ''path''" "n = Name p" by auto
      with f1 have "p \<in> set ?acc \<or> p \<in> injectedParameter ` set ?ns" by auto
      then show "n \<in> ?T"
      proof
        assume "p \<in> set ?acc" with p show ?thesis by simp
      next
        assume "p \<in> injectedParameter ` set ?ns"
        with p ns show ?thesis by (auto simp: injectedParameter_def)
      qed
    next
      fix n assume "n \<in> ?T"
      with ns f3 obtain q where "q \<in> set ?res" "In q = ''path''" "Name q = n" by blast
      then show "n \<in> Name ` {p \<in> set ?res. In p = ''path''}" by force
    qed
    have c2: "filter (\<lambda>p. In p \<noteq> ''path'') ?res = filter (\<lambda>p. In p \<noteq> ''path'') ?ps"
      using f5 by (simp add: conj_commute cong: conj_cong)
    have notdecl: "p \<notin> set ?ps" if p: "p \<in> set ?res" "p \<notin> set ?acc" for p
    proof
      assume d: "p \<in> set ?ps"
      from f4 p obtain n where n: "n \<in> set ?ns" "p = injectedParameter n" by blast
      with ns have "In p = ''path''" "Name p \<in> ?T" by (simp_all add: injectedParameter_def)
      with d have "p \<in> set ?acc" by simp
      with p show False by simp
    qed
    have c3: "filter (\<lambda>p. p \<in> set ?ps) ?res = ?acc"
    proof -
      have "filter (\<lambda>p. p \<in> set ?ps) ?res = filter (\<lambda>p. p \<in> set ?acc) ?res"
        by (rule filter_cong) (use notdecl in auto)
      with f6 show ?thesis by simp
    qed
    have c4: "\<forall>p \<in> set ?res. p \<notin> set ?ps \<longrightarrow>
          (\<exists>n \<in> ?T. p = injectedParameter n \<and> \<not> (\<exists>q \<in> set ?ps. In q = ''path'' \<and> Name q = n))"
    proof (intro ballI impI)
      fix p assume p: "p \<in> set ?res" "p \<notin> set ?ps"
      then have "p \<notin> set ?acc" by auto
      with f4 p obtain n where n: "n \<in> set ?ns" "p = injectedParameter n"
        and no: "\<not> (\<exists>q \<in> set ?acc. In q = ''path'' \<and> Name q = n)" by blast
      from n ns have nT: "n \<in> ?T" by simp
      with no have "\<not> (\<exists>q \<in> set ?ps. In q = ''path'' \<and> Name q = n)" by auto
      with n nT show "\<exists>n \<in> ?T. p = injectedParameter n \<and> \<not> (\<exists>q \<in> set ?ps. In q = ''path'' \<and> Name q = n)"
        by blast
    qed
    from c1 c2 c3 c4 show ?thesis unfolding res by blast
  qed
  have tok: "set (pathTokenNames ''/users/{id}/posts/{postId}'') = {''id'', ''postId''}"
    by (simp add: pathTokenNames_def Let_def)
  from main [of path] main [of "''/users/{id}/posts/{postId}''"] tok show ?thesis
    by simp
qed

lemma validateOperationParameters_distinct:
  assumes "iterationOrder ord"
    and "distinct (map Name (filter (\<lambda>p. In p = ''path'') (Parameters operation)))"
  shows "distinct (map Name (filter (\<lambda>p. In p = ''path'')
           (Parameters (validateOperationParameters ord operation pathParams))))"
proof -
  obtain acc where acc: "acc = filter (\<lambda>param. if In param = ''path''
                 then map_of (expectedParamsMap pathParams) (Name param) = Some True else True)
               (Parameters operation)" by simp
  obtain ns where ns: "ns = map fst (rangeMap ord (expectedParamsMap pathParams))" by simp
  have eq: "Parameters (validateOperationParameters ord operation pathParams) =
              fold addMissingParameter ns acc"
    unfolding acc ns validateOperationParameters_def Let_def by simp
  have dns: "distinct ns"
    unfolding ns
    using rangeMap_keys_mset [OF assms(1), of "expectedParamsMap pathParams"]
      expectedParamsMap_distinct [of pathParams]
    by (metis mset_eq_imp_distinct_iff)
  let ?nf = "\<lambda>n. \<not> (\<exists>q \<in> set acc. In q = ''path'' \<and> Name q = n)"
  have res: "fold addMissingParameter ns acc = acc @ map injectedParameter (filter ?nf ns)"
    by (rule addMissing_fold_explicit [OF dns])
  have inj: "filter (\<lambda>p. In p = ''path'') (map injectedParameter xs) = map injectedParameter xs"
    for xs by (induction xs) (simp_all add: injectedParameter_def)
  have nm: "map Name (map injectedParameter xs) = xs" for xs
    by (induction xs) (simp_all add: injectedParameter_def)
  have names: "map Name (filter (\<lambda>p. In p = ''path'') (fold addMissingParameter ns acc)) =
                 map Name (filter (\<lambda>p. In p = ''path'') acc) @ filter ?nf ns"
    by (simp only: res filter_append map_append inj nm)
  have "filter (\<lambda>p. In p = ''path'') acc =
          filter (\<lambda>param. if In param = ''path''
                 then map_of (expectedParamsMap pathParams) (Name param) = Some True else True)
            (filter (\<lambda>p. In p = ''path'') (Parameters operation))"
    unfolding acc by (simp add: conj_commute cong: conj_cong)
  with assms(2) have d1: "distinct (map Name (filter (\<lambda>p. In p = ''path'') acc))"
    by (simp only: distinct_map_filter)
  have d2: "distinct (filter ?nf ns)"
    using dns by simp
  have d3: "set (map Name (filter (\<lambda>p. In p = ''path'') acc)) \<inter> set (filter ?nf ns) = {}"
    by auto
  from d1 d2 d3 show ?thesis
    by (simp only: eq names distinct_append)
qed

text \<open>
  C4, amended. After reconciliation of an operation under a path, the names of its
  path-located parameters are exactly the names between braces in the path; when the
  declared path-located parameters have pairwise different names, so have those of the
  result, one parameter for each name of the path; the non-path parameters are
  untouched; of the declared parameters exactly those path-located ones whose name is no
  token are removed; and every parameter that was not declared is the required,
  string-typed path parameter of a token that no declared path parameter had. For the
  path \<open>/users/{id}/posts/{postId}\<close> the path-located parameters are named \<open>id\<close> and
  \<open>postId\<close>, and there are exactly two of them when the declared ones have pairwise
  different names.
\<close>

theorem validateOperationParameters_reconciles:
  assumes "iterationOrder ord"
  shows
    "Name ` {p \<in> set (Parameters (validateOperationParameters ord operation (findBraceTokens path))).
              In p = ''path''} = set (pathTokenNames path) \<and>
     (distinct (map Name (filter (\<lambda>p. In p = ''path'') (Parameters operation))) \<longrightarrow>
        distinct (map Name (filter (\<lambda>p. In p = ''path'')
           (Parameters (validateOperationParameters ord operation (findBraceTokens path))))) \<and>
        length (filter (\<lambda>p. In p = ''path'')
           (Parameters (validateOperationParameters ord operation (findBraceTokens path)))) =
          card (set (pathTokenNames path))) \<and>
     filter (\<lambda>p. In p \<noteq> ''path'')
        (Parameters (validateOperationParameters ord operation (findBraceTokens path))) =
       filter (\<lambda>p. In p \<noteq> ''path'') (Parameters operation) \<and>
     filter (\<lambda>p. p \<in> set (Parameters operation))
        (Parameters (validateOperationParameters ord operation (findBraceTokens path))) =
       filter (\<lambda>p. In p = ''path'' \<longrightarrow> Name p \<in> set (pathTokenNames path)) (Parameters operation) \<and>
     (\<forall>p \<in> set (Parameters (validateOperationParameters ord operation (findBraceTokens path))).
        p \<notin> set (Parameters operation) \<longrightarrow>
          (\<exists>n \<in> set (pathTokenNames path). p = injectedParameter n \<and>
             \<not> (\<exists>q \<in> set (Parameters operation). In q = ''path'' \<and> Name q = n))) \<and>
     Name ` {p \<in> set (Parameters (validateOperationParameters ord operation
                (findBraceTokens ''/users/{id}/posts/{postId}''))). In p = ''path''} =
       {''id'', ''postId''} \<and>
     (distinct (map Name (filter (\<lambda>p. In p = ''path'') (Parameters operation))) \<longrightarrow>
        length (filter (\<lambda>p. In p = ''path'')
           (Parameters (validateOperationParameters ord operation
              (findBraceTokens ''/users/{id}/posts/{postId}'')))) = 2)"
proof -
  have count: "length (filter (\<lambda>p. In p = ''path'')
           (Parameters (validateOperationParameters ord operation (findBraceTokens pth)))) =
          card (set (pathTokenNames pth))"
    if d: "distinct (map Name (filter (\<lambda>p. In p = ''path'') (Parameters operation)))" for pth
  proof -
    let ?L = "filter (\<lambda>p. In p = ''path'')
           (Parameters (validateOperationParameters ord operation (findBraceTokens pth)))"
    have "distinct (map Name ?L)"
      by (rule validateOperationParameters_distinct [OF assms d])
    then have "card (set (map Name ?L)) = length (map Name ?L)"
      by (rule distinct_card)
    moreover have "set (map Name ?L) = set (pathTokenNames pth)"
      using reconciled_parameter_sets [OF assms, of operation pth] by auto
    ultimately show ?thesis by simp
  qed
  have two: "card (set (pathTokenNames ''/users/{id}/posts/{postId}'')) = 2"
    by (simp add: pathTokenNames_def Let_def)
  from reconciled_parameter_sets [OF assms, of operation path]
    validateOperationParameters_distinct [OF assms, of operation "findBraceTokens path"]
    count [of path] count [of "''/users/{id}/posts/{postId}''"] two
  show ?thesis by (simp only: simp_thms) blast
qed

theorem validateOperationParameters_reconciles_witness:
  "iterationOrder (\<lambda>ks. ks) \<and>
   distinct (map Name (filter (\<lambda>p. In p = ''path'') (Parameters (generateOperation postsRoute)))) \<and>
   Name ` {p \<in> set (Parameters (validateOperationParameters (\<lambda>ks. ks)
             (generateOperation postsRoute) (findBraceTokens ''/users/{id}/posts/{postId}''))).
            In p = ''path''} = {''id'', ''postId''} \<and>
   length (filter (\<lambda>p. In p = ''path'')
     (Parameters (validateOperationParameters (\<lambda>ks. ks)
        (generateOperation postsRoute) (findBraceTokens ''/users/{id}/posts/{postId}'')))) = 2 \<and>
   filter (\<lambda>p. In p \<noteq> ''path'')
     (Parameters (validateOperationParameters (\<lambda>ks. ks)
        (generateOperation postsRoute) (findBraceTokens ''/users/{id}/posts/{postId}''))) =
   filter (\<lambda>p. In p \<noteq> ''path'') (Parameters (generateOperation postsRoute))"
proof -
  have h: "iterationOrder (\<lambda>ks. ks)"
    by (simp add: iterationOrder_def)
  have d: "distinct (map Name (filter (\<lambda>p. In p = ''path'') (Parameters (generateOperation postsRoute))))"
    by code_simp
  from validateOperationParameters_reconciles
         [OF h, of "generateOperation postsRoute" "''/users/{id}/posts/{postId}''"] h d
  show ?thesis by blast
qed

text \<open>
  C4 as stated fails on an operation that declares two path parameters named \<open>id\<close>:
  both are kept, a parameter \<open>postId\<close> is added, and the operation under
  \<open>/users/{id}/posts/{postId}\<close> has three path-located parameters, not two, also in the
  document that \<open>Generate\<close> builds.
\<close>

theorem duplicate_path_parameter_counterexample:
  "map Name (filter (\<lambda>p. In p = ''path'') (Parameters (generateOperation twoIdsRoute))) =
     [''id'', ''id''] \<and>
   map Name (filter (\<lambda>p. In p = ''path'')
     (Parameters (validateOperationParameters (\<lambda>ks. ks) (generateOperation twoIdsRoute)
        (findBraceTokens ''/users/{id}/posts/{postId}'')))) = [''id'', ''id'', ''postId''] \<and>
   map (\<lambda>(path, pathItem).
          (path, map_option (\<lambda>operation. map Name (filter (\<lambda>p. In p = ''path'')
                                              (Parameters operation))) (Get pathItem)))
     (Paths (Generate (\<lambda>ks. ks) exampleConfig twoIdsAnalysis)) =
     [(''/users/{id}/posts/{postId}'', Some [''id'', ''id'', ''postId''])]"
  by code_simp

subsection \<open>Setters of a schema\<close>

lemma set_Type_eq: "set_Type v s = Schema v (Format s) (Properties s) (Items s) (Required s) (AdditionalProperties s) (Ref s) (Example s) (Schema_Description s) (Enum s) (Default s)"
  by (cases s) (simp add: set_Type_def)
lemma set_Format_eq: "set_Format v s = Schema (Schema_Type s) v (Properties s) (Items s) (Required s) (AdditionalProperties s) (Ref s) (Example s) (Schema_Description s) (Enum s) (Default s)"
  by (cases s) (simp add: set_Format_def)
lemma set_Properties_eq: "set_Properties v s = Schema (Schema_Type s) (Format s) v (Items s) (Required s) (AdditionalProperties s) (Ref s) (Example s) (Schema_Description s) (Enum s) (Default s)"
  by (cases s) (simp add: set_Properties_def)
lemma set_Items_eq: "set_Items v s = Schema (Schema_Type s) (Format s) (Properties s) v (Required s) (AdditionalProperties s) (Ref s) (Example s) (Schema_Description s) (Enum s) (Default s)"
  by (cases s) (simp add: set_Items_def)
lemma set_Required_eq: "set_Required v s = Schema (Schema_Type s) (Format s) (Properties s) (Items s) v (AdditionalProperties s) (Ref s) (Example s) (Schema_Description s) (Enum s) (Default s)"
  by (cases s) (simp add: set_Required_def)
lemma set_AdditionalProperties_eq: "set_AdditionalProperties v s = Schema (Schema_Type s) (Format s) (Properties s) (Items s) (Required s) v (Ref s) (Example s) (Schema_Description s) (Enum s) (Default s)"
  by (cases s) (simp add: set_AdditionalProperties_def)
lemma set_Ref_eq: "set_Ref v s = Schema (Schema_Type s) (Format s) (Properties s) (Items s) (Required s) (AdditionalProperties s) v (Example s) (Schema_Description s) (Enum s) (Default s)"
  by (cases s) (simp add: set_Ref_def)
lemma set_Example_eq: "set_Example v s = Schema (Schema_Type s) (Format s) (Properties s) (Items s) (Required s) (AdditionalProperties s) (Ref s) v (Schema_Description s) (Enum s) (Default s)"
  by (cases s) (simp add: set_Example_def)
lemma set_Description_eq: "set_Description v s = Schema (Schema_Type s) (Format s) (Properties s) (Items s) (Required s) (AdditionalProperties s) (Ref s) (Example s) v (Enum s) (Default s)"
  by (cases s) (simp add: set_Description_def)
lemma set_Enum_eq: "set_Enum v s = Schema (Schema_Type s) (Format s) (Properties s) (Items s) (Required s) (AdditionalProperties s) (Ref s) (Example s) (Schema_Description s) v (Default s)"
  by (cases s) (simp add: set_Enum_def)
lemma set_Default_eq: "set_Default v s = Schema (Schema_Type s) (Format s) (Properties s) (Items s) (Required s) (AdditionalProperties s) (Ref s) (Example s) (Schema_Description s) (Enum s) v"
  by (cases s) (simp add: set_Default_def)

lemmas setter_eqs = set_Type_eq set_Format_eq set_Properties_eq set_Items_eq set_Required_eq
  set_AdditionalProperties_eq set_Ref_eq set_Example_eq set_Description_eq set_Enum_eq set_Default_eq

subsection \<open>The required list of a model schema\<close>

lemma generateSchemaFields_Required:
  "Required (generateSchemaFields fs s) =
     Required s @ map propertyKey (filter (\<lambda>f. JSONTag f \<noteq> ''-'' \<and> Field_Required f) fs)"
  by (induction fs arbitrary: s) (simp_all add: Let_def setter_eqs)

lemma generateSchemaFromModel_Required:
  "Required (generateSchemaFromModel model) =
     map propertyKey (filter (\<lambda>f. JSONTag f \<noteq> ''-'' \<and> Field_Required f) (Fields model))"
  by (simp add: generateSchemaFromModel_def generateSchemaFields_Required setter_eqs emptySchema_def)

lemma Contains_Nil_omitempty: "\<not> Contains [] ''omitempty''"
  by simp

lemma namedField_props:
  "Field_Name (namedField fld n) = n \<and>
   (Tag fld = None \<longrightarrow> JSONTag (namedField fld n) = '''' \<and> Field_Required (namedField fld n)) \<and>
   (Contains (JSONTag (namedField fld n)) ''omitempty'' \<longrightarrow> \<not> Field_Required (namedField fld n))"
  by (auto simp: namedField_def Let_def split: option.splits)

lemma embeddedField_props:
  "Contains (JSONTag (embeddedField fld)) ''omitempty'' \<longrightarrow> \<not> Field_Required (embeddedField fld)"
  by (auto simp: embeddedField_def Let_def split: option.splits)

lemma parseStructFields_omitempty:
  "f \<in> set (parseStructFields st) \<Longrightarrow> Contains (JSONTag f) ''omitempty'' \<Longrightarrow> \<not> Field_Required f"
  by (induction st) (auto simp: namedField_props embeddedField_props split: if_splits)

lemma parseStructFields_untagged:
  "fld \<in> set st \<Longrightarrow> Tag fld = None \<Longrightarrow> n \<in> set (Names fld) \<Longrightarrow> IsExported n \<Longrightarrow>
   namedField fld n \<in> set (parseStructFields st)"
  by (induction st) auto

text \<open>
  C2, amended, for the model that \<open>parseStruct\<close> builds from a struct and the schema that
  \<open>generateSchemaFromModel\<close> builds from the model. The property key of every exported
  named field that has no tag at all, the snake-cased field name, is in the required
  list. A field whose json tag contains \<open>omitempty\<close> is not marked required, and its
  property key is absent from the required list unless another field of the model with
  the same key is marked required and is not tagged \<open>json:"-"\<close>. The required list is the
  list of the property keys of the fields that are marked required and are not tagged
  \<open>json:"-"\<close>.
\<close>

theorem required_list_of_struct:
  "(\<forall>fld \<in> set structType. \<forall>n \<in> set (Names fld).
      Tag fld = None \<and> IsExported n \<longrightarrow>
        toSnakeCase n \<in> set (Required (generateSchemaFromModel (parseStruct pkg name structType doc)))) \<and>
   (\<forall>f \<in> set (Fields (parseStruct pkg name structType doc)).
      Contains (JSONTag f) ''omitempty'' \<longrightarrow>
        \<not> Field_Required f \<and>
        ((\<forall>g \<in> set (Fields (parseStruct pkg name structType doc)).
            propertyKey g = propertyKey f \<longrightarrow> \<not> Field_Required g \<or> JSONTag g = ''-'') \<longrightarrow>
         propertyKey f \<notin> set (Required (generateSchemaFromModel (parseStruct pkg name structType doc))))) \<and>
   Required (generateSchemaFromModel (parseStruct pkg name structType doc)) =
     map propertyKey (filter (\<lambda>f. JSONTag f \<noteq> ''-'' \<and> Field_Required f)
                        (Fields (parseStruct pkg name structType doc)))"
proof (intro conjI ballI impI)
  fix fld n
  assume fld: "fld \<in> set structType" and n: "n \<in> set (Names fld)"
    and t: "Tag fld = None \<and> IsExported n"
  let ?f = "namedField fld n"
  from fld n t have "?f \<in> set (parseStructFields structType)"
    by (simp add: parseStructFields_untagged)
  moreover from t have "JSONTag ?f = ''''" "Field_Required ?f" "Field_Name ?f = n"
    using namedField_props [of fld n] by simp_all
  moreover from this have "propertyKey ?f = toSnakeCase n"
    by (simp add: propertyKey_def)
  ultimately show "toSnakeCase n \<in> set (Required (generateSchemaFromModel (parseStruct pkg name structType doc)))"
    by (force simp: generateSchemaFromModel_Required parseStruct_def)
next
  fix f
  assume "f \<in> set (Fields (parseStruct pkg name structType doc))"
    and "Contains (JSONTag f) ''omitempty''"
  then show "\<not> Field_Required f"
    by (simp add: parseStruct_def parseStructFields_omitempty)
next
  fix f
  assume "\<forall>g \<in> set (Fields (parseStruct pkg name structType doc)).
            propertyKey g = propertyKey f \<longrightarrow> \<not> Field_Required g \<or> JSONTag g = ''-''"
  then show "propertyKey f \<notin> set (Required (generateSchemaFromModel (parseStruct pkg name structType doc)))"
    by (auto simp: generateSchemaFromModel_Required)
next
  show "Required (generateSchemaFromModel (parseStruct pkg name structType doc)) =
     map propertyKey (filter (\<lambda>f. JSONTag f \<noteq> ''-'' \<and> Field_Required f)
                        (Fields (parseStruct pkg name structType doc)))"
    by (rule generateSchemaFromModel_Required)
qed

lemma userStruct_fields:
  "Fields (parseStruct ''sdk'' ''User'' userStruct None) =
     [\<lparr>Field_Name = ''ID'', Field_Type = ''int'', JSONTag = ''id'', OriginalType = ''int'',
       Field_Required = True, Field_Description = '''', Field_Example = None\<rparr>,
      \<lparr>Field_Name = ''Name'', Field_Type = ''string'', JSONTag = ''name,omitempty'',
       OriginalType = ''string'', Field_Required = False, Field_Description = '''',
       Field_Example = None\<rparr>,
      \<lparr>Field_Name = ''Age'', Field_Type = ''int'', JSONTag = '''', OriginalType = ''int'',
       Field_Required = True, Field_Description = '''', Field_Example = None\<rparr>]"
  by (simp add: parseStruct_def userStruct_def jsonTagLiteral_def namedField_def IsExported_def
      isUpper_def HasPrefix_def Let_def)

theorem required_list_of_struct_witness:
  "''age'' \<in> set (Required (generateSchemaFromModel (parseStruct ''sdk'' ''User'' userStruct None))) \<and>
   ''name'' \<notin> set (Required (generateSchemaFromModel (parseStruct ''sdk'' ''User'' userStruct None))) \<and>
   Required (generateSchemaFromModel (parseStruct ''sdk'' ''User'' userStruct None)) = [''id'', ''age'']"
  using required_list_of_struct [of userStruct "''sdk''" "''User''" None]
  by (simp add: userStruct_fields propertyKey_def toSnakeCase_def ToLower_def toLowerChar_def
      isUpper_def isLower_def isDigit_def HasPrefix_def)

text \<open>
  C2 as stated fails on the struct \<open>Pair\<close>: its field \<open>Name\<close> is tagged
  \<open>json:"name,omitempty"\<close>, its field \<open>Alias\<close> is tagged \<open>json:"name"\<close>, both have the property
  key \<open>name\<close>, and the required list holds \<open>name\<close>, through \<open>Alias\<close>.
\<close>

theorem shared_property_key_counterexample:
  "map JSONTag (Fields (parseStruct ''sdk'' ''Pair'' pairStruct None)) =
     [''name,omitempty'', ''name''] \<and>
   Contains ''name,omitempty'' ''omitempty'' \<and>
   map propertyKey (Fields (parseStruct ''sdk'' ''Pair'' pairStruct None)) = [''name'', ''name''] \<and>
   Required (generateSchemaFromModel (parseStruct ''sdk'' ''Pair'' pairStruct None)) = [''name'']"
  by code_simp

subsection \<open>Unresolved references\<close>

lemma HasPrefix_append [simp]: "HasPrefix (p @ s) p"
  by (simp add: HasPrefix_def)

lemma TrimPrefix_append [simp]: "TrimPrefix (p @ s) p = s"
  by (simp add: TrimPrefix_def)

lemma schemaPrefix_nonempty [simp]: "schemaPrefix \<noteq> []"
  by (simp add: schemaPrefix_def)

lemma rangeMap_keys_subset: "set (map fst (rangeMap ord m)) \<subseteq> fst ` set m"
  using rangeMap_subset [of ord m] by auto

lemma map_of_None_iff_key: "map_of m k = None \<longleftrightarrow> k \<notin> fst ` set m"
  by (simp add: map_of_eq_None_iff)

lemma find_Some_D: "find P xs = Some x \<Longrightarrow> x \<in> set xs \<and> P x"
  by (induction xs) (auto split: if_splits)


text \<open>
  C9. An unresolved reference is to be dropped and the schema holding it replaced by the
  generic object schema (type \<open>object\<close>, no reference), wherever it occurs. On
  \<open>orderAnalysis\<close> the draft holds two references that no schema of the table answers:
  \<open>Person\<close>, in the property \<open>owner\<close> of the component schema \<open>Order\<close>, and \<open>Ghost\<close>, in the
  \<open>200\<close> response of the operation. In the document the response schema is the generic
  object schema, as \<open>removeInvalidRefsFromSchema\<close> leaves it; the property \<open>owner\<close> is the
  empty schema, with no type: \<open>cleanSchema\<close> has emptied its reference before
  \<open>removeInvalidRefsFromSchema\<close> could see it.
\<close>

theorem unresolved_property_becomes_empty_schema:
  "map_of (Schemas (Spec_Components (draftSpec (\<lambda>ks. ks) exampleConfig orderAnalysis))) ''Order'' =
     Some (Schema ''object'' ''''
             [(''owner'', set_Ref ''#/components/schemas/Person'' emptySchema)]
             None [''owner''] None '''' None '''' [] None) \<and>
   map (\<lambda>(path, pathItem).
          (path, map_option (\<lambda>operation. map_option Response_Content
                               (map_of (Responses operation) ''200'')) (Get pathItem)))
     (Paths (draftSpec (\<lambda>ks. ks) exampleConfig orderAnalysis)) =
     [(''/users/{id}/posts/{postId}'',
       Some (Some [(''application/json'',
                    \<lparr>MediaType_Schema = set_Ref ''#/components/schemas/Ghost'' emptySchema\<rparr>)]))] \<and>
   map fst (Schemas (Spec_Components (Generate (\<lambda>ks. ks) exampleConfig orderAnalysis))) =
     [''Order'', ''ErrorResponse'', ''StandardResponse''] \<and>
   map_of (Schemas (Spec_Components (Generate (\<lambda>ks. ks) exampleConfig orderAnalysis))) ''Order'' =
     Some (Schema ''object'' '''' [(''owner'', emptySchema)] None [''owner''] None '''' None ''''
             [] None) \<and>
   map (\<lambda>(path, pathItem).
          (path, map_option (\<lambda>operation. map_option Response_Content
                               (map_of (Responses operation) ''200'')) (Get pathItem)))
     (Paths (Generate (\<lambda>ks. ks) exampleConfig orderAnalysis)) =
     [(''/users/{id}/posts/{postId}'',
       Some (Some [(''application/json'',
                    \<lparr>MediaType_Schema = set_Type ''object'' emptySchema\<rparr>)]))] \<and>
   emptySchema \<noteq> set_Type ''object'' emptySchema"
  by code_simp

subsection \<open>Operations keyed by method and normalized path\<close>

lemma key_inj:
  "isHTTPMethod M \<Longrightarrow> isHTTPMethod M' \<Longrightarrow> M @ '':'' @ p = M' @ '':'' @ p' \<Longrightarrow> M = M' \<and> p = p'"
proof -
  assume "isHTTPMethod M" "isHTTPMethod M'" and eq: "M @ '':'' @ p = M' @ '':'' @ p'"
  then have m: "M \<in> {''GET'', ''POST'', ''PUT'', ''DELETE'', ''PATCH'', ''HEAD'', ''OPTIONS''}"
    and m': "M' \<in> {''GET'', ''POST'', ''PUT'', ''DELETE'', ''PATCH'', ''HEAD'', ''OPTIONS''}"
    by (simp_all add: isHTTPMethod_def)
  from m m' eq show ?thesis
    by (elim insertE emptyE) simp_all
qed

lemma ToLower_methods:
  "ToLower ''GET'' = ''get''" "ToLower ''POST'' = ''post''" "ToLower ''PUT'' = ''put''"
  "ToLower ''DELETE'' = ''delete''" "ToLower ''PATCH'' = ''patch''"
  "ToLower ''HEAD'' = ''head''" "ToLower ''OPTIONS'' = ''options''"
  by (simp_all add: ToLower_def toLowerChar_def isUpper_def)

lemma setOperation_methods:
  "setOperation ''GET'' op item = item\<lparr>Get := Some op\<rparr>"
  "setOperation ''POST'' op item = item\<lparr>Post := Some op\<rparr>"
  "setOperation ''PUT'' op item = item\<lparr>Put := Some op\<rparr>"
  "setOperation ''DELETE'' op item = item\<lparr>Delete := Some op\<rparr>"
  "setOperation ''PATCH'' op item = item\<lparr>Patch := Some op\<rparr>"
  "setOperation ''HEAD'' op item = item"
  "setOperation ''OPTIONS'' op item = item"
  by (simp_all add: setOperation_def ToLower_methods)

lemma find_snoc:
  "find P (xs @ [x]) = (case find P xs of Some y \<Rightarrow> Some y | None \<Rightarrow> if P x then Some x else None)"
  by (induction xs) auto

lemma firstRoute_snoc:
  "firstRoute (rs @ [r]) M p =
     (case firstRoute rs M p of
        Some x \<Rightarrow> Some x
      | None \<Rightarrow> if Method r = M \<and> convertPathFormat (Route_Path r) = p then Some r else None)"
  by (simp add: firstRoute_def find_snoc)

lemma firstRoute_None_iff:
  "firstRoute rs M p = None \<longleftrightarrow>
     \<not> (\<exists>r \<in> set rs. Method r = M \<and> convertPathFormat (Route_Path r) = p)"
  by (auto simp: firstRoute_def find_None_iff)

lemma firstRoutesItem_no_route:
  "p \<notin> (\<lambda>r. convertPathFormat (Route_Path r)) ` set rs \<Longrightarrow> firstRoutesItem rs p = zeroPathItem"
proof -
  assume "p \<notin> (\<lambda>r. convertPathFormat (Route_Path r)) ` set rs"
  then have "firstRoute rs M p = None" for M
    by (auto simp: firstRoute_None_iff)
  then show ?thesis by (simp add: firstRoutesItem_def zeroPathItem_def)
qed

lemma firstRoutesItem_snoc_other:
  assumes "convertPathFormat (Route_Path r) \<noteq> p \<or>
           (\<exists>r' \<in> set rs. Method r' = Method r \<and> convertPathFormat (Route_Path r') = p)"
  shows "firstRoutesItem (rs @ [r]) p = firstRoutesItem rs p"
proof -
  have "firstRoute (rs @ [r]) M p = firstRoute rs M p" for M
  proof (cases "firstRoute rs M p")
    case None
    then have "\<not> (\<exists>r \<in> set rs. Method r = M \<and> convertPathFormat (Route_Path r) = p)"
      by (simp add: firstRoute_None_iff)
    with assms have "\<not> (Method r = M \<and> convertPathFormat (Route_Path r) = p)"
      by blast
    with None show ?thesis
      by (simp add: firstRoute_snoc)
  next
    case (Some x)
    then show ?thesis by (simp add: firstRoute_snoc)
  qed
  then show ?thesis by (simp add: firstRoutesItem_def)
qed

lemma firstRoutesItem_snoc_new:
  assumes "isHTTPMethod (Method r)"
    and "\<not> (\<exists>r' \<in> set rs. Method r' = Method r \<and>
              convertPathFormat (Route_Path r') = convertPathFormat (Route_Path r))"
  shows "firstRoutesItem (rs @ [r]) (convertPathFormat (Route_Path r)) =
         setOperation (Method r) (generateOperation r)
           (firstRoutesItem rs (convertPathFormat (Route_Path r)))"
proof -
  let ?p = "convertPathFormat (Route_Path r)"
  from assms(2) have none: "firstRoute rs (Method r) ?p = None"
    by (simp add: firstRoute_None_iff)
  have other: "firstRoute (rs @ [r]) M ?p = firstRoute rs M ?p" if "M \<noteq> Method r" for M
    using that by (simp add: firstRoute_snoc split: option.splits)
  have same: "firstRoute (rs @ [r]) (Method r) ?p = Some r"
    using none by (simp add: firstRoute_snoc)
  from assms(1)
  have "Method r \<in> {''GET'', ''POST'', ''PUT'', ''DELETE'', ''PATCH'', ''HEAD'', ''OPTIONS''}"
    by (simp add: isHTTPMethod_def)
  then show ?thesis
  proof (elim insertE emptyE)
    assume m: "Method r = ''GET''"
    with same other show ?thesis
      by (simp add: firstRoutesItem_def setOperation_methods)
  next
    assume m: "Method r = ''POST''"
    with same other show ?thesis
      by (simp add: firstRoutesItem_def setOperation_methods)
  next
    assume m: "Method r = ''PUT''"
    with same other show ?thesis
      by (simp add: firstRoutesItem_def setOperation_methods)
  next
    assume m: "Method r = ''DELETE''"
    with same other show ?thesis
      by (simp add: firstRoutesItem_def setOperation_methods)
  next
    assume m: "Method r = ''PATCH''"
    with same other show ?thesis
      by (simp add: firstRoutesItem_def setOperation_methods)
  next
    assume m: "Method r = ''HEAD''"
    with other show ?thesis
      by (simp add: firstRoutesItem_def setOperation_methods)
  next
    assume m: "Method r = ''OPTIONS''"
    with other show ?thesis
      by (simp add: firstRoutesItem_def setOperation_methods)
  qed
qed

lemma generateRoutes_invariant:
  assumes "\<forall>r \<in> set routes. isHTTPMethod (Method r)"
  shows "(\<forall>k. map_of (processedPaths (generateRoutes routes)) k = Some True \<longleftrightarrow>
            (\<exists>r \<in> set routes. Method r @ '':'' @ convertPathFormat (Route_Path r) = k)) \<and>
         (\<forall>p. map_of (loop_Paths (generateRoutes routes)) p =
            (if p \<in> (\<lambda>r. convertPathFormat (Route_Path r)) ` set routes
             then Some (firstRoutesItem routes p) else None))"
  using assms
proof (induction routes rule: rev_induct)
  case Nil
  then show ?case by (simp add: generateRoutes_def)
next
  case (snoc r rs)
  let ?st = "generateRoutes rs"
  let ?p = "convertPathFormat (Route_Path r)"
  let ?k = "Method r @ '':'' @ ?p"
  from snoc.prems have hr: "isHTTPMethod (Method r)" and hrs: "\<forall>r \<in> set rs. isHTTPMethod (Method r)"
    by simp_all
  from snoc.IH [OF hrs]
  have I1: "\<And>k. map_of (processedPaths ?st) k = Some True \<longleftrightarrow>
            (\<exists>r \<in> set rs. Method r @ '':'' @ convertPathFormat (Route_Path r) = k)"
    and I2: "\<And>p. map_of (loop_Paths ?st) p =
            (if p \<in> (\<lambda>r. convertPathFormat (Route_Path r)) ` set rs
             then Some (firstRoutesItem rs p) else None)"
    by blast+
  have step: "generateRoutes (rs @ [r]) = generateRoute r ?st"
    by (simp add: generateRoutes_def)
  show ?case
  proof (cases "map_of (processedPaths ?st) ?k = Some True")
    case True
    then obtain r' where r': "r' \<in> set rs"
      "Method r' @ '':'' @ convertPathFormat (Route_Path r') = ?k"
      using I1 by blast
    with hr hrs have same: "Method r' = Method r" "convertPathFormat (Route_Path r') = ?p"
      using key_inj [of "Method r'" "Method r"] by blast+
    have st: "generateRoute r ?st = ?st"
      using True by (simp add: generateRoute_def Let_def)
    have P1: "\<forall>k. map_of (processedPaths (generateRoutes (rs @ [r]))) k = Some True \<longleftrightarrow>
            (\<exists>x \<in> set (rs @ [r]). Method x @ '':'' @ convertPathFormat (Route_Path x) = k)"
      using I1 r' by (auto simp: step st)
    have P2: "\<forall>p. map_of (loop_Paths (generateRoutes (rs @ [r]))) p =
            (if p \<in> (\<lambda>r. convertPathFormat (Route_Path r)) ` set (rs @ [r])
             then Some (firstRoutesItem (rs @ [r]) p) else None)"
    proof
      fix p
      have a: "firstRoutesItem (rs @ [r]) p = firstRoutesItem rs p"
        using r'(1) same by (intro firstRoutesItem_snoc_other) auto
      have "?p \<in> (\<lambda>r. convertPathFormat (Route_Path r)) ` set rs"
        using r'(1) same(2) by (intro image_eqI [where x = r']) simp_all
      then have b: "p \<in> (\<lambda>r. convertPathFormat (Route_Path r)) ` set (rs @ [r]) \<longleftrightarrow>
               p \<in> (\<lambda>r. convertPathFormat (Route_Path r)) ` set rs"
        by auto
      show "map_of (loop_Paths (generateRoutes (rs @ [r]))) p =
            (if p \<in> (\<lambda>r. convertPathFormat (Route_Path r)) ` set (rs @ [r])
             then Some (firstRoutesItem (rs @ [r]) p) else None)"
        unfolding step st I2 a b ..
    qed
    from P1 P2 show ?thesis by blast
  next
    case False
    then have fresh: "\<not> (\<exists>r' \<in> set rs. Method r' = Method r \<and>
              convertPathFormat (Route_Path r') = ?p)"
      using I1 by auto
    have item: "(case map_of (loop_Paths ?st) ?p of Some item \<Rightarrow> item | None \<Rightarrow> zeroPathItem)
                  = firstRoutesItem rs ?p"
      by (simp add: I2 firstRoutesItem_no_route)
    have pp: "processedPaths (generateRoute r ?st) = AList.update ?k True (processedPaths ?st)"
      using False by (simp add: generateRoute_def Let_def)
    have lp: "loop_Paths (generateRoute r ?st) =
                AList.update ?p (setOperation (Method r) (generateOperation r) (firstRoutesItem rs ?p))
                  (loop_Paths ?st)"
      using False by (simp add: generateRoute_def Let_def item)
    have P1: "\<forall>k. map_of (processedPaths (generateRoutes (rs @ [r]))) k = Some True \<longleftrightarrow>
            (\<exists>x \<in> set (rs @ [r]). Method x @ '':'' @ convertPathFormat (Route_Path x) = k)"
      using I1 by (auto simp: step pp update_conv')
    have P2: "\<forall>p. map_of (loop_Paths (generateRoutes (rs @ [r]))) p =
            (if p \<in> (\<lambda>r. convertPathFormat (Route_Path r)) ` set (rs @ [r])
             then Some (firstRoutesItem (rs @ [r]) p) else None)"
    proof
      fix p
      show "map_of (loop_Paths (generateRoutes (rs @ [r]))) p =
            (if p \<in> (\<lambda>r. convertPathFormat (Route_Path r)) ` set (rs @ [r])
             then Some (firstRoutesItem (rs @ [r]) p) else None)"
      proof (cases "p = ?p")
        case True
        then show ?thesis
          using firstRoutesItem_snoc_new [OF hr fresh]
          by (simp add: step lp update_conv')
      next
        case False
        then have "firstRoutesItem (rs @ [r]) p = firstRoutesItem rs p"
          by (intro firstRoutesItem_snoc_other) auto
        with False show ?thesis
          by (auto simp: step lp update_conv' I2)
      qed
    qed
    from P1 P2 show ?thesis by blast
  qed
qed

lemma generateRoutes_distinct: "distinct (map fst (loop_Paths (generateRoutes routes)))"
proof (induction routes rule: rev_induct)
  case Nil
  then show ?case by (simp add: generateRoutes_def)
next
  case (snoc r rs)
  have "generateRoutes (rs @ [r]) = generateRoute r (generateRoutes rs)"
    by (simp add: generateRoutes_def)
  with snoc show ?case
    by (simp add: generateRoute_def Let_def distinct_update)
qed

lemma map_fst_map_values: "map fst (map (\<lambda>(k, v). (k, f k v)) xs) = map fst xs"
  by (induction xs) auto

lemma map_of_map_values:
  "map_of (map (\<lambda>(k, v). (k, f k v)) xs) k = map_option (f k) (map_of xs k)"
  by (induction xs) auto

lemma mapOperations_comp: "mapOperations f (mapOperations g item) = mapOperations (f \<circ> g) item"
  by (simp add: mapOperations_def option.map_comp)

lemma keys_cleanAllSchemaNames:
  "map fst (Schemas (Spec_Components (cleanAllSchemaNames ord spec))) =
   map fst (cleanedSchemas ord (Schemas (Spec_Components spec)))"
  by (auto simp: cleanAllSchemaNames_def updateAllReferences_def)

lemma keys_validateSchemas:
  "map fst (Schemas (Spec_Components (validateSchemas ord spec))) =
   map fst (Schemas (Spec_Components spec))"
  by (auto simp: validateSchemas_def)

lemma keys_validatePaths:
  "Schemas (Spec_Components (validatePaths ord spec)) = Schemas (Spec_Components spec)"
  by (simp add: validatePaths_def)

lemma keys_removeInvalidReferences:
  "map fst (Schemas (Spec_Components (removeInvalidReferences spec))) =
   map fst (Schemas (Spec_Components spec))"
  by (auto simp: removeInvalidReferences_def Let_def)

lemma Schemas_keys_ValidateAndCleanSpec:
  "map fst (Schemas (Spec_Components (ValidateAndCleanSpec ord spec))) =
   map fst (cleanedSchemas ord (Schemas (Spec_Components spec)))"
  by (simp only: ValidateAndCleanSpec_def keys_removeInvalidReferences keys_validatePaths
      keys_validateSchemas keys_cleanAllSchemaNames)

lemma Paths_cleanAllSchemaNames:
  "Paths (cleanAllSchemaNames ord spec) =
     map (\<lambda>(p, item).
            (p, mapOperations
                  (updateOperationReferences (oldToNewNamesOf ord (Schemas (Spec_Components spec))))
                  item))
       (Paths spec)"
  by (simp add: cleanAllSchemaNames_def updateAllReferences_def)

lemma Paths_validateSchemas: "Paths (validateSchemas ord spec) = Paths spec"
  by (simp add: validateSchemas_def)

lemma Paths_validatePaths:
  "Paths (validatePaths ord spec) =
     map (\<lambda>(p, item).
            (p, mapOperations
                  (\<lambda>operation. validateOperationParameters ord operation (findBraceTokens p)) item))
       (Paths spec)"
  by (simp add: validatePaths_def validatePathParameters_def Let_def)

lemma Paths_removeInvalidReferences:
  "Paths (removeInvalidReferences spec) =
     map (\<lambda>(p, item).
            (p, mapOperations
                  (removeInvalidRefsFromOperation (map fst (Schemas (Spec_Components spec)))) item))
       (Paths spec)"
  by (simp add: removeInvalidReferences_def Let_def)

lemma map_values_twice:
  "map (\<lambda>(k, v). (k, f k v)) (map (\<lambda>(k, v). (k, g k v)) xs) = map (\<lambda>(k, v). (k, f k (g k v))) xs"
  by (induction xs) auto

lemma finishOperation_fun:
  "finishOperation ord names validSchemas path =
     (\<lambda>operation. removeInvalidRefsFromOperation validSchemas
        (validateOperationParameters ord (updateOperationReferences names operation)
           (findBraceTokens path)))"
  by (rule ext) (simp add: finishOperation_def)

lemma Paths_ValidateAndCleanSpec:
  "Paths (ValidateAndCleanSpec ord spec) =
     map (\<lambda>(p, item).
            (p, mapOperations
                  (finishOperation ord (oldToNewNamesOf ord (Schemas (Spec_Components spec)))
                     (map fst (Schemas (Spec_Components (ValidateAndCleanSpec ord spec)))) p)
                  item))
       (Paths spec)"
proof -
  let ?names = "oldToNewNamesOf ord (Schemas (Spec_Components spec))"
  let ?valid = "map fst (cleanedSchemas ord (Schemas (Spec_Components spec)))"
  let ?s = "validatePaths ord (validateSchemas ord (cleanAllSchemaNames ord spec))"
  have v: "map fst (Schemas (Spec_Components ?s)) = ?valid"
    by (simp only: keys_validatePaths keys_validateSchemas keys_cleanAllSchemaNames)
  have "Paths (ValidateAndCleanSpec ord spec) =
          map (\<lambda>(p, item). (p, mapOperations (removeInvalidRefsFromOperation ?valid) item)) (Paths ?s)"
    by (simp only: ValidateAndCleanSpec_def Paths_removeInvalidReferences v)
  also have "Paths ?s =
          map (\<lambda>(p, item).
                 (p, mapOperations
                       (\<lambda>operation. validateOperationParameters ord operation (findBraceTokens p))
                       (mapOperations (updateOperationReferences ?names) item)))
            (Paths spec)"
    by (simp only: Paths_validatePaths Paths_validateSchemas Paths_cleanAllSchemaNames
        map_values_twice)
  finally have "Paths (ValidateAndCleanSpec ord spec) =
     map (\<lambda>(p, item). (p, mapOperations (finishOperation ord ?names ?valid p) item)) (Paths spec)"
    by (simp only: map_values_twice mapOperations_comp comp_def finishOperation_fun)
  then show ?thesis
    by (simp only: Schemas_keys_ValidateAndCleanSpec)
qed

text \<open>
  C3, as the code has it, for a route list whose methods are those that the route parser
  emits. The document has one path item for each normalized path of the list; under each
  of its five verbs the item holds the operation generated from the first route of the
  list with that method and that normalized path, as \<open>ValidateAndCleanSpec\<close> leaves it, and
  nothing when the list has no such route. A route with the method \<open>HEAD\<close> or \<open>OPTIONS\<close>
  gives no operation.
\<close>

theorem Generate_operation_of_first_route:
  assumes "\<forall>r \<in> set (Routes analysis). isHTTPMethod (Method r)"
  shows
    "distinct (map fst (Paths (Generate ord config analysis))) \<and>
     map_of (Paths (Generate ord config analysis)) path =
       (if path \<in> (\<lambda>r. convertPathFormat (Route_Path r)) ` set (Routes analysis)
        then Some (mapOperations
                     (finishOperation ord
                        (oldToNewNamesOf ord (generateSchemas ord (Models analysis)))
                        (map fst (Schemas (Spec_Components (Generate ord config analysis))))
                        path)
                     (firstRoutesItem (Routes analysis) path))
        else None)"
proof -
  have P: "Paths (draftSpec ord config analysis) = loop_Paths (generateRoutes (Routes analysis))"
    and S: "Schemas (Spec_Components (draftSpec ord config analysis)) =
              generateSchemas ord (Models analysis)"
    by (simp_all add: draftSpec_def Let_def)
  from generateRoutes_invariant [OF assms]
  have I: "map_of (loop_Paths (generateRoutes (Routes analysis))) path =
            (if path \<in> (\<lambda>r. convertPathFormat (Route_Path r)) ` set (Routes analysis)
             then Some (firstRoutesItem (Routes analysis) path) else None)"
    by blast
  have "distinct (map fst (Paths (Generate ord config analysis)))"
    unfolding Generate_def Paths_ValidateAndCleanSpec P
    by (simp only: map_fst_map_values generateRoutes_distinct)
  moreover have "map_of (Paths (Generate ord config analysis)) path =
       (if path \<in> (\<lambda>r. convertPathFormat (Route_Path r)) ` set (Routes analysis)
        then Some (mapOperations
                     (finishOperation ord
                        (oldToNewNamesOf ord (generateSchemas ord (Models analysis)))
                        (map fst (Schemas (Spec_Components (Generate ord config analysis))))
                        path)
                     (firstRoutesItem (Routes analysis) path))
        else None)"
    unfolding Generate_def Paths_ValidateAndCleanSpec P S
    by (simp add: map_of_map_values I)
  ultimately show ?thesis by blast
qed

theorem Generate_operation_of_first_route_witness:
  "map_of (Paths (Generate (\<lambda>ks. ks) exampleConfig usersTwice)) ''/v1/users'' =
     Some (mapOperations
             (finishOperation (\<lambda>ks. ks)
                (oldToNewNamesOf (\<lambda>ks. ks) (generateSchemas (\<lambda>ks. ks) (Models usersTwice)))
                (map fst (Schemas (Spec_Components (Generate (\<lambda>ks. ks) exampleConfig usersTwice))))
                ''/v1/users'')
             (firstRoutesItem (Routes usersTwice) ''/v1/users'')) \<and>
   Get (firstRoutesItem (Routes usersTwice) ''/v1/users'') =
     Some (generateOperation (usersRoute ''GET'' ''ListUsers''))"
proof -
  have h: "\<forall>r \<in> set (Routes usersTwice). isHTTPMethod (Method r)"
    by (simp add: usersTwice_def usersRoute_def isHTTPMethod_def)
  have p: "convertPathFormat ''/v1/users'' = ''/v1/users''"
    by code_simp
  have g: "Get (firstRoutesItem (Routes usersTwice) ''/v1/users'') =
     Some (generateOperation (usersRoute ''GET'' ''ListUsers''))"
    by (simp add: firstRoutesItem_def firstRoute_def usersTwice_def usersRoute_def p)
  from Generate_operation_of_first_route [OF h, of "\<lambda>ks. ks" exampleConfig "''/v1/users''"] g
  show ?thesis
    by (simp add: usersTwice_def usersRoute_def p)
qed

text \<open>
  C3 as stated fails on the route \<open>HEAD /v1/users\<close> registered twice: the two routes have
  the same method and the same normalized path, and the document has no operation at
  all, only an empty path item.
\<close>

theorem head_routes_counterexample:
  "Method (Routes headTwice ! 0) = Method (Routes headTwice ! 1) \<and>
   convertPathFormat (Route_Path (Routes headTwice ! 0)) =
     convertPathFormat (Route_Path (Routes headTwice ! 1)) \<and>
   Paths (Generate (\<lambda>ks. ks) exampleConfig headTwice) =
     [(''/v1/users'', \<lparr>Get = None, Post = None, Put = None, Delete = None, Patch = None\<rparr>)]"
  by code_simp

subsection \<open>C1: no reference of the document dangles\<close>

lemma schemaRefs_set:
  "set (schemaRefs (Schema t f props items req ap ref ex d en df)) =
     (if ref \<noteq> '''' then {ref} else {}) \<union>
     (\<Union>p \<in> set props. set (schemaRefs (snd p))) \<union>
     (\<Union>s \<in> set_option items. set (schemaRefs s)) \<union>
     (\<Union>x \<in> set_option ap. \<Union>s \<in> Basic_BNFs.setr x. set (schemaRefs s))"
proof -
  have a: "set (case map_option schemaRefs items of None \<Rightarrow> [] | Some rs \<Rightarrow> rs) =
             (\<Union>s \<in> set_option items. set (schemaRefs s))"
    by (cases items) simp_all
  have b: "set (case map_option (map_sum id schemaRefs) ap of Some (Inr rs) \<Rightarrow> rs | _ \<Rightarrow> []) =
             (\<Union>x \<in> set_option ap. \<Union>s \<in> Basic_BNFs.setr x. set (schemaRefs s))"
  proof (cases ap)
    case None
    then show ?thesis by simp
  next
    case (Some x)
    then show ?thesis by (cases x) simp_all
  qed
  have c: "set (concat (map snd (map (map_prod id schemaRefs) props))) =
             (\<Union>p \<in> set props. set (schemaRefs (snd p)))"
    by (induction props) auto
  have "set (schemaRefs (Schema t f props items req ap ref ex d en df)) =
          set (if ref \<noteq> '''' then [ref] else []) \<union>
          set (concat (map snd (map (map_prod id schemaRefs) props))) \<union>
          set (case map_option schemaRefs items of None \<Rightarrow> [] | Some rs \<Rightarrow> rs) \<union>
          set (case map_option (map_sum id schemaRefs) ap of Some (Inr rs) \<Rightarrow> rs | _ \<Rightarrow> [])"
    by (simp only: schemaRefs.simps set_append Un_assoc)
  also have "set (if ref \<noteq> '''' then [ref] else []) = (if ref \<noteq> '''' then {ref} else {})"
    by simp
  finally show ?thesis
    by (simp only: a b c)
qed

lemma prefixed_HasPrefix: "prefixed r \<longleftrightarrow> HasPrefix r schemaPrefix"
  unfolding prefixed_def HasPrefix_def
  by (metis append_eq_conv_conj append_take_drop_id)

lemma prefixed_TrimPrefix: "prefixed r \<Longrightarrow> r = schemaPrefix @ TrimPrefix r schemaPrefix"
  by (auto simp: prefixed_def)

lemma removeInvalidRefs_refs:
  "r \<in> set (schemaRefs (removeInvalidRefsFromSchema valid s)) \<Longrightarrow>
   r \<in> set (schemaRefs s) \<and> TrimPrefix r schemaPrefix \<in> set valid"
proof (induction s arbitrary: r)
  case (Schema t f props items req ap ref ex d en df)
  show ?case
  proof (cases "ref \<noteq> '''' \<and> TrimPrefix ref schemaPrefix \<notin> set valid")
    case True
    with Schema.prems show ?thesis
      by (simp add: set_Type_eq emptySchema_def)
  next
    case False
    then have eq: "removeInvalidRefsFromSchema valid (Schema t f props items req ap ref ex d en df) =
      Schema t f (map (map_prod id (removeInvalidRefsFromSchema valid)) props)
        (map_option (removeInvalidRefsFromSchema valid) items) req
        (map_option (map_sum id (removeInvalidRefsFromSchema valid)) ap) ref ex d en df"
      by auto
    from Schema.prems have "r \<in> set (schemaRefs (Schema t f (map (map_prod id (removeInvalidRefsFromSchema valid)) props)
        (map_option (removeInvalidRefsFromSchema valid) items) req
        (map_option (map_sum id (removeInvalidRefsFromSchema valid)) ap) ref ex d en df))"
      by (simp only: eq)
    then consider
        (own) "ref \<noteq> [] \<and> r = ref"
      | (property) p where "p \<in> set props \<and> r \<in> set (schemaRefs (removeInvalidRefsFromSchema valid (snd p)))"
      | (item) s where "items = Some s \<and> r \<in> set (schemaRefs (removeInvalidRefsFromSchema valid s))"
      | (addl) s where "ap = Some (Inr s) \<and> r \<in> set (schemaRefs (removeInvalidRefsFromSchema valid s))"
      unfolding schemaRefs_set
      by (auto split: if_splits simp: option.set_map sum.set_map elim!: option.set_cases setr.cases)
    then show ?thesis
    proof cases
      case own
      with False show ?thesis unfolding schemaRefs_set by simp
    next
      case (property p)
      then have "r \<in> set (schemaRefs (snd p)) \<and> TrimPrefix r schemaPrefix \<in> set valid"
        using Schema.IH(1) [of p "snd p" r] by (cases p) auto
      with property show ?thesis unfolding schemaRefs_set by auto
    next
      case (item s)
      then have "r \<in> set (schemaRefs s) \<and> TrimPrefix r schemaPrefix \<in> set valid"
        using Schema.IH(2) [of s r] by simp
      with item show ?thesis unfolding schemaRefs_set by auto
    next
      case (addl s)
      then have "r \<in> set (schemaRefs s) \<and> TrimPrefix r schemaPrefix \<in> set valid"
        using Schema.IH(3) [of "Inr s" s r] by simp
      with addl show ?thesis unfolding schemaRefs_set by auto
    qed
  qed
qed

lemma set_update_subset: "set (AList.update k v al) \<subseteq> insert (k, v) (set al)"
  by (induction al) auto

lemma fold_update_values:
  "p \<in> set (fold (\<lambda>(k, v) m. AList.update (g k) v m) xs m0) \<Longrightarrow>
   snd p \<in> snd ` set xs \<union> snd ` set m0"
proof (induction xs arbitrary: m0)
  case Nil
  then show ?case by auto
next
  case (Cons x xs)
  obtain k v where x: "x = (k, v)" by (cases x)
  from Cons.prems have "p \<in> set (fold (\<lambda>(k, v) m. AList.update (g k) v m) xs (AList.update (g k) v m0))"
    by (simp add: x)
  from Cons.IH [OF this] have "snd p \<in> snd ` set xs \<union> snd ` set (AList.update (g k) v m0)" .
  moreover have "snd ` set (AList.update (g k) v m0) \<subseteq> insert v (snd ` set m0)"
    using set_update_subset [of "g k" v m0] by auto
  ultimately show ?case by (auto simp: x)
qed

lemma cleanReference_prefixed:
  "cleanReference ord ref all = '''' \<or> prefixed (cleanReference ord ref all)"
  by (auto simp: cleanReference_def prefixed_def Let_def)

lemma cleanSchema_refs_prefixed:
  "r \<in> set (schemaRefs (cleanSchema ord all s)) \<Longrightarrow> prefixed r"
proof (induction s arbitrary: r)
  case (Schema t f props items req ap ref ex d en df)
  let ?c = "if ref \<noteq> '''' then cleanReference ord ref all else ref"
  show ?case
  proof (cases "ref \<noteq> '''' \<and> ?c \<noteq> ''''")
    case True
    then have "cleanSchema ord all (Schema t f props items req ap ref ex d en df) =
                 set_Ref (cleanReference ord ref all) emptySchema"
      using True by (auto simp: Let_def)
    with Schema.prems have "r = cleanReference ord ref all"
      by (simp add: set_Ref_eq emptySchema_def split: if_splits)
    with True cleanReference_prefixed [of ord ref all] show ?thesis by auto
  next
    case False
    then have c: "?c = ''''" by auto
    let ?props = "fold (\<lambda>(propName, propSchema) cleanProps.
                         AList.update (cleanPropertyName propName) propSchema cleanProps)
                   (rangeMap ord (map (map_prod id (cleanSchema ord all)) props)) []"
    from False have eq: "cleanSchema ord all (Schema t f props items req ap ref ex d en df) =
      Schema t f ?props (map_option (cleanSchema ord all) items) req
        (map_option (map_sum id (cleanSchema ord all)) ap) '''' ex d en df"
      using c by (auto simp: Let_def)
    from Schema.prems have "r \<in> set (schemaRefs (Schema t f ?props (map_option (cleanSchema ord all) items) req
        (map_option (map_sum id (cleanSchema ord all)) ap) '''' ex d en df))"
      by (simp only: eq)
    then consider
        (property) p where "p \<in> set ?props \<and> r \<in> set (schemaRefs (snd p))"
      | (item) s where "items = Some s \<and> r \<in> set (schemaRefs (cleanSchema ord all s))"
      | (addl) s where "ap = Some (Inr s) \<and> r \<in> set (schemaRefs (cleanSchema ord all s))"
      unfolding schemaRefs_set
      by (auto split: if_splits simp: option.set_map sum.set_map elim!: option.set_cases setr.cases)
    then show ?thesis
    proof cases
      case (property p)
      then have "snd p \<in> snd ` set (rangeMap ord (map (map_prod id (cleanSchema ord all)) props))"
        using fold_update_values [of p cleanPropertyName _ "[]"] by auto
      then have "snd p \<in> snd ` set (map (map_prod id (cleanSchema ord all)) props)"
        using rangeMap_subset [of ord "map (map_prod id (cleanSchema ord all)) props"] by auto
      then obtain q where q: "q \<in> set props" "snd p = cleanSchema ord all (snd q)"
        by auto
      with property show ?thesis
        using Schema.IH(1) [of q "snd q" r] by (cases q) auto
    next
      case (item s)
      then show ?thesis using Schema.IH(2) [of s r] by simp
    next
      case (addl s)
      then show ?thesis using Schema.IH(3) [of "Inr s" s r] by simp
    qed
  qed
qed

lemma updateReference_prefixed: "prefixed ref \<Longrightarrow> prefixed (updateReference ref m)"
  by (auto simp: updateReference_def prefixed_def Let_def split: option.splits)

lemma updateSchemaReferences_refs_prefixed:
  "(\<forall>r \<in> set (schemaRefs s). prefixed r) \<Longrightarrow>
   r \<in> set (schemaRefs (updateSchemaReferences m s)) \<Longrightarrow> prefixed r"
proof (induction s arbitrary: r)
  case (Schema t f props items req ap ref ex d en df)
  note all = Schema.prems(1) [unfolded schemaRefs_set]
  from Schema.prems(2) consider
      (own) "ref \<noteq> [] \<and> r = updateReference ref m"
    | (property) p where "p \<in> set props \<and> r \<in> set (schemaRefs (updateSchemaReferences m (snd p)))"
    | (item) s where "items = Some s \<and> r \<in> set (schemaRefs (updateSchemaReferences m s))"
    | (addl) s where "ap = Some (Inr s) \<and> r \<in> set (schemaRefs (updateSchemaReferences m s))"
    unfolding updateSchemaReferences.simps schemaRefs_set
    by (auto split: if_splits simp: option.set_map sum.set_map elim!: option.set_cases setr.cases)
  then show ?case
  proof cases
    case own
    with all have "prefixed ref" by auto
    with own show ?thesis by (simp add: updateReference_prefixed)
  next
    case (property p)
    moreover from all property have "\<forall>r \<in> set (schemaRefs (snd p)). prefixed r" by auto
    ultimately show ?thesis
      using Schema.IH(1) [of p "snd p" r] by (cases p) auto
  next
    case (item s)
    moreover from all item have "\<forall>r \<in> set (schemaRefs s). prefixed r" by auto
    ultimately show ?thesis using Schema.IH(2) [of s r] by simp
  next
    case (addl s)
    moreover from all addl have "\<forall>r \<in> set (schemaRefs s). prefixed r" by auto
    ultimately show ?thesis using Schema.IH(3) [of "Inr s" s r] by simp
  qed
qed

lemma schemaRefs_emptySchema [simp]: "schemaRefs emptySchema = []"
  by (simp add: emptySchema_def)

lemma schemaRefs_setters [simp]:
  "schemaRefs (set_Type v s) = schemaRefs s"
  "schemaRefs (set_Format v s) = schemaRefs s"
  "schemaRefs (set_Enum en s) = schemaRefs s"
  "schemaRefs (set_Default df s) = schemaRefs s"
  "schemaRefs (set_Description d s) = schemaRefs s"
  by (cases s; simp add: set_Type_def set_Format_def set_Enum_def set_Default_def
      set_Description_def)+

lemma schemaRefs_set_Ref_empty: "ref \<noteq> '''' \<Longrightarrow> schemaRefs (set_Ref ref emptySchema) = [ref]"
  by (simp add: set_Ref_def emptySchema_def)

lemma generateParameterSchema_refs: "schemaRefs (generateParameterSchema param) = []"
  by (simp add: generateParameterSchema_def Let_def set_Items_def emptySchema_def set_Type_def
      set_Format_def)

lemma opParameter_refs: "schemaRefs (OpParameter_Schema (opParameter param)) = []"
  by (simp add: opParameter_def Let_def generateParameterSchema_refs)

lemma injectedParameter_refs: "schemaRefs (OpParameter_Schema (injectedParameter n)) = []"
  by (simp add: injectedParameter_def)

lemma refContent_refs: "contentRefs (refContent name) = [schemaPrefix @ name]"
  by (simp add: contentRefs_def refContent_def schemaRefs_set_Ref_empty)

lemma contentRefs_Nil: "contentRefs [] = []"
  by (simp add: contentRefs_def)

lemma operationRefs_cases:
  assumes "r \<in> set (operationRefs operation)"
    and "\<forall>param \<in> set (Parameters operation). schemaRefs (OpParameter_Schema param) = []"
  shows "(\<exists>rb. RequestBody operation = Some rb \<and> r \<in> set (contentRefs (RequestBody_Content rb))) \<or>
         (\<exists>code response. (code, response) \<in> set (Responses operation) \<and>
            r \<in> set (contentRefs (Response_Content response)))"
proof (cases "RequestBody operation")
  case None
  with assms show ?thesis by (auto simp: operationRefs_def)
next
  case (Some rb)
  with assms show ?thesis by (auto simp: operationRefs_def)
qed

lemma operationRefs_body:
  "RequestBody operation = Some rb \<Longrightarrow> r \<in> set (contentRefs (RequestBody_Content rb)) \<Longrightarrow>
   r \<in> set (operationRefs operation)"
  by (simp add: operationRefs_def)

lemma operationRefs_response:
  "(code, response) \<in> set (Responses operation) \<Longrightarrow>
   r \<in> set (contentRefs (Response_Content response)) \<Longrightarrow> r \<in> set (operationRefs operation)"
  by (force simp: operationRefs_def)

lemma generateOperation_clean: "cleanOperation (generateOperation route)"
  unfolding cleanOperation_def
proof (intro conjI ballI)
  fix param assume "param \<in> set (Parameters (generateOperation route))"
  then show "schemaRefs (OpParameter_Schema param) = []"
    by (auto simp: generateOperation_def opParameter_refs)
next
  fix r assume "r \<in> set (operationRefs (generateOperation route))"
  then show "prefixed r"
    by (auto simp: operationRefs_def generateOperation_def opParameter_refs refContent_refs
        contentRefs_Nil prefixed_def Let_def split: option.splits)
qed

lemma contentRefs_updateContent:
  "(\<forall>r \<in> set (contentRefs content). prefixed r) \<Longrightarrow>
   r \<in> set (contentRefs (updateContent m content)) \<Longrightarrow> prefixed r"
proof -
  assume all: "\<forall>r \<in> set (contentRefs content). prefixed r"
    and r: "r \<in> set (contentRefs (updateContent m content))"
  from r obtain mt c where c: "(mt, c) \<in> set content"
    "r \<in> set (schemaRefs (updateSchemaReferences m (MediaType_Schema c)))"
    by (auto simp: contentRefs_def updateContent_def)
  with all have "\<forall>r \<in> set (schemaRefs (MediaType_Schema c)). prefixed r"
    by (force simp: contentRefs_def)
  with c show "prefixed r"
    by (rule_tac updateSchemaReferences_refs_prefixed) auto
qed

lemma updateOperationReferences_clean:
  assumes "cleanOperation operation"
  shows "cleanOperation (updateOperationReferences m operation)"
  unfolding cleanOperation_def
proof (intro conjI ballI)
  fix param assume "param \<in> set (Parameters (updateOperationReferences m operation))"
  with assms show "schemaRefs (OpParameter_Schema param) = []"
    by (simp add: cleanOperation_def updateOperationReferences_def)
next
  fix r assume r: "r \<in> set (operationRefs (updateOperationReferences m operation))"
  from assms have params: "\<forall>param \<in> set (Parameters operation). schemaRefs (OpParameter_Schema param) = []"
    and refs: "\<forall>r \<in> set (operationRefs operation). prefixed r"
    by (simp_all add: cleanOperation_def)
  have params': "\<forall>param \<in> set (Parameters (updateOperationReferences m operation)).
      schemaRefs (OpParameter_Schema param) = []"
    using params by (simp add: updateOperationReferences_def)
  from operationRefs_cases [OF r params'] consider
      (body) rb where "RequestBody operation = Some rb \<and>
          r \<in> set (contentRefs (updateContent m (RequestBody_Content rb)))"
    | (resp) code response where "(code, response) \<in> set (Responses operation) \<and>
          r \<in> set (contentRefs (updateContent m (Response_Content response)))"
    by (cases "RequestBody operation") (auto simp: updateOperationReferences_def)
  then show "prefixed r"
  proof cases
    case (body rb)
    with refs have "\<forall>r \<in> set (contentRefs (RequestBody_Content rb)). prefixed r"
      by (auto intro: operationRefs_body)
    with body show ?thesis by (auto intro: contentRefs_updateContent)
  next
    case (resp code response)
    with refs have "\<forall>r \<in> set (contentRefs (Response_Content response)). prefixed r"
      by (auto intro: operationRefs_response)
    with resp show ?thesis by (auto intro: contentRefs_updateContent)
  qed
qed

lemma validateOperationParameters_subset:
  "set (Parameters (validateOperationParameters ord operation pathParams)) \<subseteq>
     set (Parameters operation) \<union> range injectedParameter"
proof -
  obtain acc where acc: "acc = filter (\<lambda>param. if In param = ''path''
                 then map_of (expectedParamsMap pathParams) (Name param) = Some True else True)
               (Parameters operation)" by simp
  obtain ns where ns: "ns = map fst (rangeMap ord (expectedParamsMap pathParams))" by simp
  have eq: "Parameters (validateOperationParameters ord operation pathParams) =
              fold addMissingParameter ns acc"
    unfolding acc ns validateOperationParameters_def Let_def by simp
  have "set acc \<subseteq> set (Parameters operation)"
    unfolding acc by (rule filter_is_subset)
  moreover from addMissing_fold [of ns acc]
  have "set (fold addMissingParameter ns acc) \<subseteq> set acc \<union> injectedParameter ` set ns"
    by blast
  ultimately show ?thesis
    unfolding eq by blast
qed

lemma validateOperationParameters_clean:
  assumes "cleanOperation operation"
  shows "cleanOperation (validateOperationParameters ord operation pathParams)"
proof -
  let ?op = "validateOperationParameters ord operation pathParams"
  have rb: "RequestBody ?op = RequestBody operation" and rs: "Responses ?op = Responses operation"
    by (simp_all add: validateOperationParameters_def Let_def)
  have params: "\<forall>param \<in> set (Parameters ?op). schemaRefs (OpParameter_Schema param) = []"
  proof
    fix param assume "param \<in> set (Parameters ?op)"
    with validateOperationParameters_subset [of ord operation pathParams]
    have "param \<in> set (Parameters operation) \<or> param \<in> range injectedParameter" by auto
    with assms show "schemaRefs (OpParameter_Schema param) = []"
      by (auto simp: cleanOperation_def injectedParameter_refs)
  qed
  from assms have "\<forall>param \<in> set (Parameters operation). schemaRefs (OpParameter_Schema param) = []"
    by (simp add: cleanOperation_def)
  with params have "set (operationRefs ?op) = set (operationRefs operation)"
    by (simp add: operationRefs_def rb rs)
  with assms params show ?thesis
    by (simp add: cleanOperation_def)
qed

lemma contentRefs_removeInvalidContent:
  "r \<in> set (contentRefs (removeInvalidContent valid content)) \<Longrightarrow>
   r \<in> set (contentRefs content) \<and> TrimPrefix r schemaPrefix \<in> set valid"
proof -
  assume "r \<in> set (contentRefs (removeInvalidContent valid content))"
  then obtain mt c where c: "(mt, c) \<in> set content"
    "r \<in> set (schemaRefs (removeInvalidRefsFromSchema valid (MediaType_Schema c)))"
    by (auto simp: contentRefs_def removeInvalidContent_def)
  from removeInvalidRefs_refs [OF c(2)] c(1)
  show ?thesis by (force simp: contentRefs_def)
qed

lemma removeInvalidRefsFromOperation_resolves:
  assumes "cleanOperation operation"
    and "r \<in> set (operationRefs (removeInvalidRefsFromOperation valid operation))"
  shows "\<exists>name \<in> set valid. r = schemaPrefix @ name"
proof -
  from assms(1) have params: "\<forall>param \<in> set (Parameters operation). schemaRefs (OpParameter_Schema param) = []"
    and refs: "\<forall>r \<in> set (operationRefs operation). prefixed r"
    by (simp_all add: cleanOperation_def)
  have params': "\<forall>param \<in> set (Parameters (removeInvalidRefsFromOperation valid operation)).
      schemaRefs (OpParameter_Schema param) = []"
    using params by (simp add: removeInvalidRefsFromOperation_def)
  from operationRefs_cases [OF assms(2) params'] consider
      (body) rb where "RequestBody operation = Some rb \<and>
          r \<in> set (contentRefs (removeInvalidContent valid (RequestBody_Content rb)))"
    | (resp) code response where "(code, response) \<in> set (Responses operation) \<and>
          r \<in> set (contentRefs (removeInvalidContent valid (Response_Content response)))"
    by (cases "RequestBody operation") (auto simp: removeInvalidRefsFromOperation_def)
  then have "r \<in> set (operationRefs operation) \<and> TrimPrefix r schemaPrefix \<in> set valid"
  proof cases
    case (body rb)
    with contentRefs_removeInvalidContent [of r valid "RequestBody_Content rb"]
    show ?thesis by (auto intro: operationRefs_body)
  next
    case (resp code response)
    with contentRefs_removeInvalidContent [of r valid "Response_Content response"]
    show ?thesis by (auto intro: operationRefs_response)
  qed
  with refs have "prefixed r" "TrimPrefix r schemaPrefix \<in> set valid" by auto
  with prefixed_TrimPrefix [of r] show ?thesis by blast
qed

lemma finishOperation_resolves:
  assumes "cleanOperation operation"
    and "r \<in> set (operationRefs (finishOperation ord names valid path operation))"
  shows "\<exists>name \<in> set valid. r = schemaPrefix @ name"
  using assms(2) unfolding finishOperation_def
  by (rule removeInvalidRefsFromOperation_resolves
      [OF validateOperationParameters_clean [OF updateOperationReferences_clean [OF assms(1)]]])

lemma itemOperations_mapOperations:
  "itemOperations (mapOperations f item) = map f (itemOperations item)"
  by (simp add: itemOperations_def mapOperations_def split: option.splits)

lemma itemOperations_setOperation:
  "set (itemOperations (setOperation method operation item)) \<subseteq>
     insert operation (set (itemOperations item))"
  by (auto simp: itemOperations_def setOperation_def Let_def split: option.splits)

lemma generateRoutes_operations:
  "(p, item) \<in> set (loop_Paths (generateRoutes routes)) \<Longrightarrow>
   operation \<in> set (itemOperations item) \<Longrightarrow> cleanOperation operation"
proof (induction routes arbitrary: p item operation rule: rev_induct)
  case Nil
  then show ?case by (simp add: generateRoutes_def)
next
  case (snoc r rs)
  let ?st = "generateRoutes rs"
  have step: "generateRoutes (rs @ [r]) = generateRoute r ?st"
    by (simp add: generateRoutes_def)
  show ?case
  proof (cases "(p, item) \<in> set (loop_Paths ?st)")
    case True
    with snoc show ?thesis by blast
  next
    case False
    let ?old = "case map_of (loop_Paths ?st) (convertPathFormat (Route_Path r)) of
                  Some item \<Rightarrow> item | None \<Rightarrow> zeroPathItem"
    from False snoc.prems(1) have
      "(p, item) \<in> set (AList.update (convertPathFormat (Route_Path r))
          (setOperation (Method r) (generateOperation r) ?old) (loop_Paths ?st))"
      unfolding step by (auto simp: generateRoute_def Let_def split: if_splits)
    with False have item: "item = setOperation (Method r) (generateOperation r) ?old"
      using set_update_subset by fastforce
    have old: "operation \<in> set (itemOperations ?old) \<Longrightarrow> cleanOperation operation"
    proof (cases "map_of (loop_Paths ?st) (convertPathFormat (Route_Path r))")
      case None
      assume "operation \<in> set (itemOperations ?old)"
      with None show ?thesis by (simp add: itemOperations_def zeroPathItem_def)
    next
      case (Some it)
      assume "operation \<in> set (itemOperations ?old)"
      with Some snoc.IH [of "convertPathFormat (Route_Path r)" it operation]
      show ?thesis by (auto dest: map_of_SomeD)
    qed
    from snoc.prems(2) item itemOperations_setOperation [of "Method r" "generateOperation r" ?old]
    have "operation = generateOperation r \<or> operation \<in> set (itemOperations ?old)"
      by auto
    with old show ?thesis by (auto simp: generateOperation_clean)
  qed
qed

lemma Schemas_ValidateAndCleanSpec:
  "(name, schema) \<in> set (Schemas (Spec_Components (ValidateAndCleanSpec ord spec))) \<Longrightarrow>
   \<exists>all s. schema =
      removeInvalidRefsFromSchema
        (map fst (Schemas (Spec_Components (ValidateAndCleanSpec ord spec))))
        (cleanSchema ord all s)"
proof -
  let ?s1 = "cleanAllSchemaNames ord spec"
  let ?s3 = "validatePaths ord (validateSchemas ord ?s1)"
  assume mem: "(name, schema) \<in> set (Schemas (Spec_Components (ValidateAndCleanSpec ord spec)))"
  have valid: "map fst (Schemas (Spec_Components (ValidateAndCleanSpec ord spec))) =
               map fst (Schemas (Spec_Components ?s3))"
    by (simp only: ValidateAndCleanSpec_def keys_removeInvalidReferences)
  from mem obtain s3 where s3: "(name, s3) \<in> set (Schemas (Spec_Components ?s3))"
      "schema = removeInvalidRefsFromSchema (map fst (Schemas (Spec_Components ?s3))) s3"
    by (auto simp: ValidateAndCleanSpec_def removeInvalidReferences_def Let_def)
  from s3(1) have "(name, s3) \<in> set (Schemas (Spec_Components (validateSchemas ord ?s1)))"
    by (simp only: keys_validatePaths)
  then obtain s1 where "s3 = cleanSchema ord (Schemas (Spec_Components ?s1)) s1"
    by (auto simp: validateSchemas_def)
  with s3(2) valid show ?thesis by auto
qed

lemma ValidateAndCleanSpec_resolves:
  assumes ops: "\<And>p item operation. (p, item) \<in> set (Paths spec) \<Longrightarrow>
      operation \<in> set (itemOperations item) \<Longrightarrow> cleanOperation operation"
    and r: "r \<in> set (specRefs (ValidateAndCleanSpec ord spec))"
  shows "\<exists>name \<in> set (map fst (Schemas (Spec_Components (ValidateAndCleanSpec ord spec)))).
           r = schemaPrefix @ name"
proof -
  let ?out = "ValidateAndCleanSpec ord spec"
  let ?valid = "map fst (Schemas (Spec_Components ?out))"
  let ?names = "oldToNewNamesOf ord (Schemas (Spec_Components spec))"
  from r consider
      (schema) name schema where "(name, schema) \<in> set (Schemas (Spec_Components ?out)) \<and>
          r \<in> set (schemaRefs schema)"
    | (operation) p item operation where "(p, item) \<in> set (Paths ?out) \<and>
          operation \<in> set (itemOperations item) \<and> r \<in> set (operationRefs operation)"
    by (auto simp: specRefs_def)
  then show ?thesis
  proof cases
    case (schema name schema)
    with Schemas_ValidateAndCleanSpec [of name schema ord spec]
    obtain all s where "schema = removeInvalidRefsFromSchema ?valid (cleanSchema ord all s)"
      by blast
    with schema have "r \<in> set (schemaRefs (removeInvalidRefsFromSchema ?valid (cleanSchema ord all s)))"
      by simp
    from removeInvalidRefs_refs [OF this]
    have "r \<in> set (schemaRefs (cleanSchema ord all s))" "TrimPrefix r schemaPrefix \<in> set ?valid"
      by simp_all
    with cleanSchema_refs_prefixed [of r ord all s] prefixed_TrimPrefix [of r]
    show ?thesis by blast
  next
    case (operation p item operation)
    then have "(p, item) \<in> set (map (\<lambda>(p, item).
            (p, mapOperations (finishOperation ord ?names ?valid p) item)) (Paths spec))"
      by (simp only: Paths_ValidateAndCleanSpec [symmetric])
    then obtain item0 where item0: "(p, item0) \<in> set (Paths spec)"
        "item = mapOperations (finishOperation ord ?names ?valid p) item0"
      by auto
    with operation have "operation \<in> finishOperation ord ?names ?valid p ` set (itemOperations item0)"
      by (simp add: itemOperations_mapOperations)
    then obtain op0 where op0: "op0 \<in> set (itemOperations item0)"
        "operation = finishOperation ord ?names ?valid p op0"
      by auto
    from ops [OF item0(1) op0(1)] have "cleanOperation op0" .
    moreover from operation op0(2)
    have "r \<in> set (operationRefs (finishOperation ord ?names ?valid p op0))" by simp
    ultimately show ?thesis
      by (rule finishOperation_resolves)
  qed
qed

text \<open>
  C1. After \<open>ValidateAndCleanSpec\<close>, every \<open>$ref\<close> of a generated document (in the
  component schemas, their properties, items and additional-properties schemas, and in
  the request body and the responses of every operation) is the schema prefix followed
  by a key of the components schema table, whatever the analysis holds and in whatever
  order the maps are iterated.
\<close>

theorem Generate_no_dangling_refs:
  "\<forall>r \<in> set (specRefs (Generate ord config analysis)).
     \<exists>name \<in> set (map fst (Schemas (Spec_Components (Generate ord config analysis)))).
       r = schemaPrefix @ name"
proof
  fix r assume r: "r \<in> set (specRefs (Generate ord config analysis))"
  have ops: "\<And>p item operation. (p, item) \<in> set (Paths (draftSpec ord config analysis)) \<Longrightarrow>
      operation \<in> set (itemOperations item) \<Longrightarrow> cleanOperation operation"
  proof -
    fix p item operation
    assume "(p, item) \<in> set (Paths (draftSpec ord config analysis))"
      and op: "operation \<in> set (itemOperations item)"
    then have "(p, item) \<in> set (loop_Paths (generateRoutes (Routes analysis)))"
      by (simp add: draftSpec_def Let_def)
    from generateRoutes_operations [OF this op] show "cleanOperation operation" .
  qed
  from r have "r \<in> set (specRefs (ValidateAndCleanSpec ord (draftSpec ord config analysis)))"
    by (simp only: Generate_def)
  from ValidateAndCleanSpec_resolves [OF ops this]
  show "\<exists>name \<in> set (map fst (Schemas (Spec_Components (Generate ord config analysis)))).
       r = schemaPrefix @ name"
    by (simp only: Generate_def)
qed

text \<open>
  The analysis \<open>orderAnalysis\<close> names two types that no model defines, \<open>Person\<close> and
  \<open>Ghost\<close>: the draft refers to both, the document to neither.
\<close>

theorem Generate_no_dangling_refs_witness:
  "''#/components/schemas/Ghost'' \<in> set (specRefs (draftSpec (\<lambda>ks. ks) exampleConfig orderAnalysis)) \<and>
   ''Ghost'' \<notin> set (map fst (Schemas (Spec_Components (Generate (\<lambda>ks. ks) exampleConfig orderAnalysis)))) \<and>
   ''#/components/schemas/ErrorResponse'' \<in> set (specRefs (Generate (\<lambda>ks. ks) exampleConfig orderAnalysis)) \<and>
   (\<exists>name \<in> set (map fst (Schemas (Spec_Components (Generate (\<lambda>ks. ks) exampleConfig orderAnalysis)))).
      ''#/components/schemas/ErrorResponse'' = schemaPrefix @ name)"
proof -
  have a: "''#/components/schemas/Ghost'' \<in> set (specRefs (draftSpec (\<lambda>ks. ks) exampleConfig orderAnalysis))"
    by code_simp
  have b: "''Ghost'' \<notin> set (map fst (Schemas (Spec_Components (Generate (\<lambda>ks. ks) exampleConfig orderAnalysis))))"
    by code_simp
  have c: "''#/components/schemas/ErrorResponse'' \<in> set (specRefs (Generate (\<lambda>ks. ks) exampleConfig orderAnalysis))"
    by code_simp
  from Generate_no_dangling_refs [of "\<lambda>ks. ks" exampleConfig orderAnalysis] c
  have "\<exists>name \<in> set (map fst (Schemas (Spec_Components (Generate (\<lambda>ks. ks) exampleConfig orderAnalysis)))).
      ''#/components/schemas/ErrorResponse'' = schemaPrefix @ name"
    by (rule bspec)
  with a b c show ?thesis by (intro conjI)
qed

subsection \<open>C7: two runs of \<open>Generate\<close> on one analysis\<close>



















lemma update_absent: "k \<notin> fst ` set m \<Longrightarrow> AList.update k v m = m @ [(k, v)]"
  by (induction m) auto

lemma fold_update_distinct:
  "distinct (map kf xs) \<Longrightarrow> kf ` set xs \<inter> fst ` set m0 = {} \<Longrightarrow>
   fold (\<lambda>x m. AList.update (kf x) (vf x) m) xs m0 = m0 @ map (\<lambda>x. (kf x, vf x)) xs"
proof (induction xs arbitrary: m0)
  case Nil
  then show ?case by simp
next
  case (Cons x xs)
  from Cons.prems have a: "kf x \<notin> fst ` set m0" by auto
  have step: "AList.update (kf x) (vf x) m0 = m0 @ [(kf x, vf x)]"
    by (rule update_absent [OF a])
  from Cons.prems have "distinct (map kf xs)"
    and "kf ` set xs \<inter> fst ` set (m0 @ [(kf x, vf x)]) = {}"
    by auto
  from Cons.IH [OF this] show ?case
    by (simp add: step)
qed

lemma fold_update_keys_distinct:
  "distinct (map fst m0) \<Longrightarrow> distinct (map fst (fold (\<lambda>x m. AList.update (kf x) (vf x) m) xs m0))"
  by (induction xs arbitrary: m0) (simp_all add: distinct_update)

lemma rangeMap_Nil: "iterationOrder ord \<Longrightarrow> rangeMap ord [] = []"
  using iterationOrder_set [of ord "[]"] by (simp add: rangeMap_def List.map_filter_simps)

lemma rangeMap_keys_distinct:
  assumes "iterationOrder ord" "distinct (map fst m)"
  shows "distinct (map fst (rangeMap ord m))"
  using rangeMap_keys_mset [OF assms(1), of m] assms(2)
  by (metis mset_eq_imp_distinct_iff)

lemma rangeMap_mset:
  assumes "iterationOrder ord" "distinct (map fst m)"
  shows "mset (rangeMap ord m) = mset m"
proof -
  have "distinct (rangeMap ord m)"
    using rangeMap_keys_distinct [OF assms] by (simp add: distinct_map)
  moreover have "distinct m"
    using assms(2) by (simp add: distinct_map)
  moreover have "set (rangeMap ord m) = set m"
    by (rule rangeMap_set [OF assms])
  ultimately show ?thesis
    by (simp add: set_eq_iff_mset_eq_distinct)
qed

lemma find_unique:
  assumes "\<And>x y. x \<in> set xs \<Longrightarrow> y \<in> set xs \<Longrightarrow> P x \<Longrightarrow> P y \<Longrightarrow> x = y"
    and "set xs = set ys"
  shows "find P xs = find P ys"
proof (cases "find P xs")
  case None
  then have "\<not> (\<exists>x \<in> set xs. P x)" by (simp only: find_None_iff) blast
  with assms(2) have "\<not> (\<exists>x \<in> set ys. P x)" by simp
  then have "find P ys = None" by (simp only: find_None_iff) blast
  with None show ?thesis by simp
next
  case (Some x)
  from find_Some_D [OF this] have x: "x \<in> set xs" "P x" by simp_all
  with assms(2) have "\<exists>y \<in> set ys. P y" by auto
  then have "find P ys \<noteq> None" by (simp only: find_None_iff) blast
  then obtain y where y: "find P ys = Some y" by blast
  from find_Some_D [OF this] assms(2) have "y \<in> set xs" "P y" by simp_all
  with assms(1) x have "x = y" by blast
  with Some y show ?thesis by simp
qed

lemma wordChars:
  "\<not> isWordChar (CHR ''*'')" "\<not> isWordChar (CHR ''.'')"
  "list_all isWordChar ''Schema''" "list_all isWordChar ''UnknownSchema''"
  "isLetter (CHR ''S'')" "isLetter (CHR ''U'')"
  by code_simp+

lemma cleanSchemaName_cases:
  obtains c3 where "\<forall>c \<in> set c3. isWordChar c"
    and "cleanSchemaName name =
           (if c3 = [] then ''UnknownSchema''
            else if isLetter (hd c3) then c3 else ''Schema'' @ c3)"
proof -
  let ?c2 = "case LastIndex (removeChar (CHR ''*'') name) (CHR ''.'') of
                       None \<Rightarrow> removeChar (CHR ''*'') name
                     | Some idx \<Rightarrow> drop (idx + 1) (removeChar (CHR ''*'') name)"
  let ?c3 = "filter isWordChar ?c2"
  have "cleanSchemaName name =
      (if (if 0 < length ?c3 \<and> \<not> isLetter (hd ?c3) then ''Schema'' @ ?c3 else ?c3) = ''''
       then ''UnknownSchema''
       else (if 0 < length ?c3 \<and> \<not> isLetter (hd ?c3) then ''Schema'' @ ?c3 else ?c3))"
    by (simp only: cleanSchemaName_def Let_def)
  also have "\<dots> = (if ?c3 = [] then ''UnknownSchema''
            else if isLetter (hd ?c3) then ?c3 else ''Schema'' @ ?c3)"
    by (cases "?c3 = []"; cases "isLetter (hd ?c3)") (simp_all only: length_greater_0_conv
        list.size simp_thms if_True if_False append_is_Nil_conv list.distinct not_less0
        less_irrefl)
  finally have eq: "cleanSchemaName name = (if ?c3 = [] then ''UnknownSchema''
            else if isLetter (hd ?c3) then ?c3 else ''Schema'' @ ?c3)" .
  have "\<forall>c \<in> set ?c3. isWordChar c" by simp
  from this eq show ?thesis by (rule that)
qed

lemma cleanSchemaName_shape:
  "cleanSchemaName name \<noteq> [] \<and> isLetter (hd (cleanSchemaName name)) \<and>
   (\<forall>c \<in> set (cleanSchemaName name). isWordChar c)"
proof -
  obtain c3 where w: "\<forall>c \<in> set c3. isWordChar c"
    and eq: "cleanSchemaName name =
           (if c3 = [] then ''UnknownSchema''
            else if isLetter (hd c3) then c3 else ''Schema'' @ c3)"
    by (rule cleanSchemaName_cases)
  have s: "\<forall>c \<in> set ''Schema''. isWordChar c" "\<forall>c \<in> set ''UnknownSchema''. isWordChar c"
    using wordChars(3,4) by (simp_all only: list_all_iff)
  have u: "''UnknownSchema'' \<noteq> []" "hd ''UnknownSchema'' = CHR ''U''"
    "hd (''Schema'' @ c3) = CHR ''S''" "''Schema'' @ c3 \<noteq> []"
    by simp_all
  show ?thesis
  proof (cases "c3 = []")
    case True
    then have "cleanSchemaName name = ''UnknownSchema''"
      by (simp only: eq if_True simp_thms)
    with s(2) wordChars(6) u show ?thesis by (simp only: simp_thms)
  next
    case False
    show ?thesis
    proof (cases "isLetter (hd c3)")
      case True
      with False have "cleanSchemaName name = c3"
        by (simp only: eq if_True if_False simp_thms)
      with False True w show ?thesis by (simp only: simp_thms)
    next
      case n: False
      with False have r: "cleanSchemaName name = ''Schema'' @ c3"
        by (simp only: eq if_True if_False simp_thms)
      have "\<forall>c \<in> set (''Schema'' @ c3). isWordChar c"
        using s(1) w by (simp only: set_append) blast
      with r wordChars(5) u show ?thesis by (simp only: simp_thms)
    qed
  qed
qed

lemma cleanSchemaName_fixed:
  assumes "r \<noteq> []" "isLetter (hd r)" "\<forall>c \<in> set r. isWordChar c"
  shows "cleanSchemaName r = r"
proof -
  from assms(3) wordChars(1) have "CHR ''*'' \<notin> set r" by blast
  then have a: "removeChar (CHR ''*'') r = r"
    by (auto simp: removeChar_def filter_id_conv)
  from assms(3) wordChars(2) have "CHR ''.'' \<notin> set r" by blast
  then have b: "LastIndex r (CHR ''.'') = None"
    by (simp add: LastIndex_def)
  from assms(3) have c: "filter isWordChar r = r"
    by (simp add: filter_id_conv)
  show ?thesis
    unfolding cleanSchemaName_def Let_def a b using assms(1,2) by (simp add: c)
qed

lemma cleanSchemaName_idem: "cleanSchemaName (cleanSchemaName name) = cleanSchemaName name"
  using cleanSchemaName_shape [of name] by (intro cleanSchemaName_fixed) simp_all

lemma cleanSchemaName_baseline:
  "cleanSchemaName ''ErrorResponse'' = ''ErrorResponse''"
  "cleanSchemaName ''StandardResponse'' = ''StandardResponse''"
  by code_simp+
lemma propertyFree_Schema:
  "propertyFree (Schema t f props items req ap ref ex d en df) \<longleftrightarrow>
     props = [] \<and> (\<forall>i. items = Some i \<longrightarrow> propertyFree i) \<and>
     (\<forall>a. ap = Some (Inr a) \<longrightarrow> propertyFree a)"
proof -
  have i: "(case map_option propertyFree items of None \<Rightarrow> True | Some b \<Rightarrow> b) =
           (\<forall>i. items = Some i \<longrightarrow> propertyFree i)"
    by (cases items) simp_all
  have a: "(case map_option (map_sum id propertyFree) ap of Some (Inr b) \<Rightarrow> b | _ \<Rightarrow> True) =
           (\<forall>a. ap = Some (Inr a) \<longrightarrow> propertyFree a)"
  proof (cases ap)
    case None
    then show ?thesis by simp
  next
    case (Some x)
    then show ?thesis by (cases x) simp_all
  qed
  show ?thesis
    by (simp only: propertyFree.simps i a)
qed

lemma propertyFree_iff:
  "propertyFree s \<longleftrightarrow>
     Properties s = [] \<and> (\<forall>i. Items s = Some i \<longrightarrow> propertyFree i) \<and>
     (\<forall>a. AdditionalProperties s = Some (Inr a) \<longrightarrow> propertyFree a)"
  by (cases s) (simp add: propertyFree_Schema del: propertyFree.simps)

lemma propertyFree_emptySchema: "propertyFree emptySchema"
  by (simp only: emptySchema_def propertyFree_Schema) simp

lemma propertyFree_setters:
  "propertyFree (set_Type v s) = propertyFree s"
  "propertyFree (set_Format v s) = propertyFree s"
  "propertyFree (set_Ref rf s) = propertyFree s"
  "propertyFree (set_Example ex s) = propertyFree s"
  "propertyFree (set_Description v s) = propertyFree s"
  by (cases s; simp add: set_Type_def set_Format_def set_Ref_def set_Example_def
      set_Description_def propertyFree_Schema del: propertyFree.simps)+

lemma propertyFree_set_Items:
  "propertyFree (set_Items (Some i) s) \<longleftrightarrow>
     propertyFree i \<and> Properties s = [] \<and>
     (\<forall>a. AdditionalProperties s = Some (Inr a) \<longrightarrow> propertyFree a)"
  by (cases s) (auto simp: set_Items_def propertyFree_Schema simp del: propertyFree.simps)

lemma propertyFree_set_AdditionalProperties:
  "propertyFree (set_AdditionalProperties ap s) \<longleftrightarrow>
     Properties s = [] \<and> (\<forall>i. Items s = Some i \<longrightarrow> propertyFree i) \<and>
     (\<forall>a. ap = Some (Inr a) \<longrightarrow> propertyFree a)"
  by (cases s)
    (auto simp: set_AdditionalProperties_def propertyFree_Schema simp del: propertyFree.simps)

lemma selectors_of_setters:
  "Properties (set_Type v s) = Properties s" "Items (set_Type v s) = Items s"
  "AdditionalProperties (set_Type v s) = AdditionalProperties s"
  "Properties (set_Description v s) = Properties s" "Items (set_Description v s) = Items s"
  "AdditionalProperties (set_Description v s) = AdditionalProperties s"
  "Properties (set_Required rq s) = Properties s" "Items (set_Required rq s) = Items s"
  "AdditionalProperties (set_Required rq s) = AdditionalProperties s"
  "Properties (set_Properties ps s) = ps" "Items (set_Properties ps s) = Items s"
  "AdditionalProperties (set_Properties ps s) = AdditionalProperties s"
  "Properties emptySchema = []" "Items emptySchema = None"
  "AdditionalProperties emptySchema = None"
  by (simp_all add: setter_eqs emptySchema_def)

lemma propertyFree_generateSchemaFromFieldType:
  "propertyFree (generateSchemaFromFieldType fieldType)"
proof (induction fieldType rule: generateSchemaFromFieldType.induct)
  case (1 fieldType)
  show ?case
  proof (cases "HasPrefix (cleanTypeName fieldType) ''[]''")
    case True
    from "1.IH" [OF refl True refl]
    have ih: "propertyFree (generateSchemaFromFieldType (TrimPrefix (cleanTypeName fieldType) ''[]''))" .
    have "generateSchemaFromFieldType fieldType =
            set_Items (Some (generateSchemaFromFieldType (TrimPrefix (cleanTypeName fieldType) ''[]'')))
              (set_Type ''array'' emptySchema)"
      using True by (subst generateSchemaFromFieldType.simps) (simp add: Let_def)
    with ih show ?thesis
      by (simp add: propertyFree_set_Items selectors_of_setters del: generateSchemaFromFieldType.simps)
  next
    case False
    then have "generateSchemaFromFieldType fieldType \<in>
        {set_Type ''string'' emptySchema, set_Format ''int32'' (set_Type ''integer'' emptySchema),
         set_Format ''int64'' (set_Type ''integer'' emptySchema),
         set_Format ''float'' (set_Type ''number'' emptySchema),
         set_Format ''double'' (set_Type ''number'' emptySchema),
         set_Type ''boolean'' emptySchema,
         set_Format ''date-time'' (set_Type ''string'' emptySchema),
         set_Format ''byte'' (set_Type ''string'' emptySchema),
         set_Ref (schemaPrefix @ cleanSchemaName (cleanTypeName fieldType)) emptySchema,
         set_Type ''object'' emptySchema}"
      by (subst generateSchemaFromFieldType.simps) (simp add: Let_def del: generateSchemaFromFieldType.simps)
    then show ?thesis
      by (elim insertE emptyE) (simp_all only: propertyFree_setters propertyFree_emptySchema)
  qed
qed

lemma propertyFree_withExample: "propertyFree (withExample field s) = propertyFree s"
  by (simp add: withExample_def propertyFree_setters)

lemma propertyFree_described:
  "propertyFree (set_Description d emptySchema)"
  "Properties (set_Description d emptySchema) = []"
  "Items (set_Description d emptySchema) = None"
  "AdditionalProperties (set_Description d emptySchema) = None"
  by (simp_all add: propertyFree_setters propertyFree_emptySchema selectors_of_setters)

lemma propertyFree_cascade:
  assumes "propertyFree a1" "propertyFree a2" "propertyFree a3" "propertyFree a4"
    "propertyFree a5" "propertyFree a6" "propertyFree a7" "propertyFree a8" "propertyFree a9"
    "propertyFree a10" "propertyFree a11" "propertyFree a12"
  shows "propertyFree
     (if c1 then a1 else if c2 then a2 else if c3 then a3 else if c4 then a4
      else if c5 then a5 else if c6 then a6 else if c7 then a7 else if c8 then a8
      else if c9 then a9 else if c10 then a10 else if c11 then a11 else a12)"
  using assms by (simp del: propertyFree.simps)

lemma propertyFree_leaves:
  "propertyFree x \<Longrightarrow>
     propertyFree (withExample field (set_Items (Some x) (set_Type t (set_Description d emptySchema))))"
  "propertyFree (withExample field (set_Format f (set_Type t (set_Description d emptySchema))))"
  "propertyFree (withExample field (set_Type t (set_Description d emptySchema)))"
  "propertyFree (withExample field (set_Ref r (set_Description d emptySchema)))"
  "(\<And>a. ap = Some (Inr a) \<Longrightarrow> propertyFree a) \<Longrightarrow>
     propertyFree (set_AdditionalProperties ap (set_Type t (set_Description d emptySchema)))"
  by (simp_all add: propertyFree_withExample propertyFree_setters propertyFree_set_Items
      propertyFree_set_AdditionalProperties propertyFree_described selectors_of_setters
      propertyFree_emptySchema del: propertyFree.simps)

lemma propertyFree_generateSchemaFromField: "propertyFree (generateSchemaFromField field)"
  unfolding generateSchemaFromField_def Let_def
proof (rule propertyFree_cascade)
  fix e
  show "propertyFree (withExample field
          (set_Items
             (Some (if isCustomType e then set_Ref (schemaPrefix @ cleanSchemaName e) emptySchema
                    else generateSchemaFromFieldType e))
             (set_Type ''array'' (set_Description (Field_Description field) emptySchema))))"
    for e
    by (rule propertyFree_leaves)
      (simp add: propertyFree_setters propertyFree_emptySchema
        propertyFree_generateSchemaFromFieldType
        del: propertyFree.simps generateSchemaFromFieldType.simps)
next
  fix v
  show "propertyFree (set_AdditionalProperties
          (if v = ''interface{}'' \<or> v = ''interface'' \<or> v = ''any'' then Some (Inl True)
           else if isCustomType v
           then Some (Inr (set_Ref (schemaPrefix @ cleanSchemaName v) emptySchema))
           else Some (Inr (generateSchemaFromFieldType v)))
          (set_Type ''object'' (set_Description (Field_Description field) emptySchema)))"
    for v
    by (rule propertyFree_leaves)
      (auto split: if_splits simp: propertyFree_setters propertyFree_emptySchema
        propertyFree_generateSchemaFromFieldType
        simp del: propertyFree.simps generateSchemaFromFieldType.simps)
next
  fix t
  show "propertyFree (withExample field
          (if isCustomType t
           then set_Ref (schemaPrefix @ cleanSchemaName t)
                  (set_Description (Field_Description field) emptySchema)
           else set_Type ''object'' (set_Description (Field_Description field) emptySchema)))"
    for t
    by (simp add: propertyFree_leaves del: propertyFree.simps)
qed (auto intro!: propertyFree_leaves simp del: propertyFree.simps)
lemma flatSchema_iff:
  "flatSchema s \<longleftrightarrow>
     (\<forall>p \<in> set (Properties s). propertyFree (snd p)) \<and>
     (\<forall>i. Items s = Some i \<longrightarrow> propertyFree i) \<and>
     (\<forall>a. AdditionalProperties s = Some (Inr a) \<longrightarrow> propertyFree a)"
  unfolding flatSchema_def list_all_iff
  by (auto split: option.splits sum.splits simp del: propertyFree.simps)

lemma generateSchemaFields_flat:
  "flatSchema s \<Longrightarrow> flatSchema (generateSchemaFields fs s)"
proof (induction fs arbitrary: s)
  case Nil
  then show ?case by simp
next
  case (Cons field rest)
  let ?s1 = "set_Properties (AList.update (propertyKey field) (generateSchemaFromField field)
                (Properties s)) s"
  have "set (AList.update (propertyKey field) (generateSchemaFromField field) (Properties s)) \<subseteq>
          insert (propertyKey field, generateSchemaFromField field) (set (Properties s))"
    by (rule set_update_subset)
  with Cons.prems have f1: "flatSchema ?s1"
    by (auto simp: flatSchema_iff selectors_of_setters propertyFree_generateSchemaFromField
        simp del: propertyFree.simps)
  then have f2: "flatSchema (set_Required r ?s1)" for r
    by (simp add: flatSchema_iff selectors_of_setters del: propertyFree.simps)
  from Cons.prems f1 f2 show ?case
    by (simp add: Let_def Cons.IH del: propertyFree.simps)
qed

lemma generateSchemaFromModel_flat: "flatSchema (generateSchemaFromModel model)"
  unfolding generateSchemaFromModel_def
  by (rule generateSchemaFields_flat)
    (simp add: flatSchema_iff selectors_of_setters del: propertyFree.simps)

lemma baseline_flat: "flatSchema errorResponseSchema" "flatSchema standardResponseSchema"
  by code_simp+

lemma baseline_property_names:
  "distinct (map (\<lambda>(propName, propSchema). cleanPropertyName propName)
               (Properties errorResponseSchema))"
  "distinct (map (\<lambda>(propName, propSchema). cleanPropertyName propName)
               (Properties standardResponseSchema))"
  by code_simp+

lemma propertyFree_updateSchemaReferences:
  "propertyFree (updateSchemaReferences names s) = propertyFree s"
proof (induction s)
  case (Schema t f props items req ap ref ex d en df)
  have i: "(\<forall>i. map_option (updateSchemaReferences names) items = Some i \<longrightarrow> propertyFree i) =
           (\<forall>i. items = Some i \<longrightarrow> propertyFree i)"
    using Schema.IH(2) by (cases items) (auto simp del: propertyFree.simps)
  have a: "(\<forall>a. map_option (map_sum id (updateSchemaReferences names)) ap = Some (Inr a) \<longrightarrow> propertyFree a) =
           (\<forall>a. ap = Some (Inr a) \<longrightarrow> propertyFree a)"
  proof (cases ap)
    case None
    then show ?thesis by simp
  next
    case (Some x)
    then show ?thesis using Schema.IH(3) [of x] by (cases x) (auto simp del: propertyFree.simps)
  qed
  show ?case
    by (simp only: updateSchemaReferences.simps propertyFree_Schema i a map_is_Nil_conv)
qed

lemma Properties_updateSchemaReferences:
  "Properties (updateSchemaReferences names s) =
     map (map_prod id (updateSchemaReferences names)) (Properties s)"
  by (cases s) simp

lemma map_sum_Inr_D:
  "map_option (map_sum id f) ap = Some (Inr a) \<Longrightarrow> \<exists>b. ap = Some (Inr b) \<and> a = f b"
proof (cases ap)
  case None
  assume "map_option (map_sum id f) ap = Some (Inr a)"
  with None show ?thesis by simp
next
  case (Some x)
  assume "map_option (map_sum id f) ap = Some (Inr a)"
  with Some show ?thesis by (cases x) simp_all
qed

lemma flatSchema_updateSchemaReferences:
  assumes "flatSchema s"
  shows "flatSchema (updateSchemaReferences names s)"
proof (cases s)
  case (Schema t f props items req ap ref ex d en df)
  with assms have p: "\<forall>p \<in> set props. propertyFree (snd p)"
    and i: "\<forall>i. items = Some i \<longrightarrow> propertyFree i"
    and a: "\<forall>a. ap = Some (Inr a) \<longrightarrow> propertyFree a"
    by (simp_all add: flatSchema_iff del: propertyFree.simps)
  have "\<forall>p \<in> set (map (map_prod id (updateSchemaReferences names)) props). propertyFree (snd p)"
    using p by (auto simp: propertyFree_updateSchemaReferences simp del: propertyFree.simps)
  moreover have "\<forall>i. map_option (updateSchemaReferences names) items = Some i \<longrightarrow> propertyFree i"
    using i by (auto simp: propertyFree_updateSchemaReferences simp del: propertyFree.simps)
  moreover have "\<forall>a. map_option (map_sum id (updateSchemaReferences names)) ap = Some (Inr a) \<longrightarrow>
        propertyFree a"
  proof (intro allI impI)
    fix x assume "map_option (map_sum id (updateSchemaReferences names)) ap = Some (Inr x)"
    from map_sum_Inr_D [OF this]
    obtain b where "ap = Some (Inr b)" "x = updateSchemaReferences names b" by blast
    with a show "propertyFree x"
      by (simp add: propertyFree_updateSchemaReferences del: propertyFree.simps)
  qed
  ultimately show ?thesis
    unfolding Schema flatSchema_iff
    by (simp only: updateSchemaReferences.simps Schema.sel)
qed

lemma property_names_updateSchemaReferences:
  "map (\<lambda>(propName, propSchema). cleanPropertyName propName)
     (Properties (updateSchemaReferences names s)) =
   map (\<lambda>(propName, propSchema). cleanPropertyName propName) (Properties s)"
  by (simp add: Properties_updateSchemaReferences case_prod_beta)
lemma rangeMap_keys_set:
  "iterationOrder ord \<Longrightarrow> set (map fst (rangeMap ord m)) = fst ` set m"
  using rangeMap_keys_mset [of ord m] by (metis set_map set_mset_mset)

lemma cleanReference_same:
  assumes "iterationOrder ord1" "iterationOrder ord2"
    and keys: "fst ` set A1 = fst ` set A2"
    and inj: "inj_on ToLower (fst ` set A1)"
  shows "cleanReference ord1 ref A1 = cleanReference ord2 ref A2"
proof -
  let ?c = "cleanSchemaName (last (Split ref (CHR ''/'')))"
  have none: "map_of A1 k = None \<longleftrightarrow> map_of A2 k = None" for k
    using keys by (simp add: map_of_None_iff_key)
  have "find (\<lambda>existingName. EqualFold existingName ?c) (map fst (rangeMap ord1 A1)) =
        find (\<lambda>existingName. EqualFold existingName ?c) (map fst (rangeMap ord2 A2))"
  proof (rule find_unique)
    fix x y
    assume "x \<in> set (map fst (rangeMap ord1 A1))" "y \<in> set (map fst (rangeMap ord1 A1))"
      and "EqualFold x ?c" "EqualFold y ?c"
    then have "x \<in> fst ` set A1" "y \<in> fst ` set A1" "ToLower x = ToLower y"
      by (simp_all only: rangeMap_keys_set [OF assms(1)] EqualFold_def)
    with inj show "x = y" by (auto dest: inj_onD)
  next
    show "set (map fst (rangeMap ord1 A1)) = set (map fst (rangeMap ord2 A2))"
      by (simp only: rangeMap_keys_set [OF assms(1)] rangeMap_keys_set [OF assms(2)] keys)
  qed
  then show ?thesis
    unfolding cleanReference_def Let_def by (simp only: none)
qed

lemma cleanSchema_propertyFree_same:
  assumes "iterationOrder ord1" "iterationOrder ord2"
    and keys: "fst ` set A1 = fst ` set A2"
    and inj: "inj_on ToLower (fst ` set A1)"
  shows "propertyFree s \<Longrightarrow> cleanSchema ord1 A1 s = cleanSchema ord2 A2 s"
proof (induction s)
  case (Schema t f props items req ap ref ex d en df)
  note pf = Schema.prems [unfolded propertyFree_Schema]
  from pf have props: "props = []" by simp
  have r: "cleanReference ord1 ref A1 = cleanReference ord2 ref A2"
    by (rule cleanReference_same [OF assms])
  have i: "map_option (cleanSchema ord1 A1) items = map_option (cleanSchema ord2 A2) items"
  proof (cases items)
    case None
    then show ?thesis by simp
  next
    case (Some x)
    with pf have "propertyFree x" by simp
    with Some Schema.IH(2) [of x] show ?thesis by simp
  qed
  have a: "map_option (map_sum id (cleanSchema ord1 A1)) ap =
           map_option (map_sum id (cleanSchema ord2 A2)) ap"
  proof (cases ap)
    case None
    then show ?thesis by simp
  next
    case (Some x)
    show ?thesis
    proof (cases x)
      case (Inl b)
      with Some show ?thesis by simp
    next
      case (Inr y)
      with Some pf have "propertyFree y" by simp
      with Some Inr Schema.IH(3) [of x y] show ?thesis by simp
    qed
  qed
  have e: "rangeMap ord1 (map (map_prod id (cleanSchema ord1 A1)) []) = []"
    "rangeMap ord2 (map (map_prod id (cleanSchema ord2 A2)) []) = []"
    using rangeMap_Nil [OF assms(1)] rangeMap_Nil [OF assms(2)] by simp_all
  show ?case
    unfolding props cleanSchema.simps Let_def
    by (simp only: r i a e fold_simps)
qed
lemma sameSchema_Schema:
  "sameSchema (Schema t f p1 i r a rf e d en df) (Schema t' f' p2 i' r' a' rf' e' d' en' df') \<longleftrightarrow>
     t = t' \<and> f = f' \<and> i = i' \<and> r = r' \<and> a = a' \<and> rf = rf' \<and> e = e' \<and> d = d' \<and>
     en = en' \<and> df = df' \<and> mset p1 = mset p2"
  by (auto simp: sameSchema_def set_Properties_def)

lemma sameSchema_refl: "sameSchema s s"
  by (simp add: sameSchema_def)

lemma distinct_map_inner: "distinct (map (\<lambda>x. g (f x)) xs) \<Longrightarrow> distinct (map f xs)"
  by (induction xs) auto

lemma fold_update_permuted:
  assumes "iterationOrder ord" and "distinct (map (\<lambda>x. kf (fst x)) m)"
  shows "mset (fold (\<lambda>(k, v) acc. AList.update (kf k) v acc) (rangeMap ord m) []) =
           image_mset (\<lambda>x. (kf (fst x), snd x)) (mset m)"
proof -
  have d: "distinct (map fst m)"
    using assms(2) by (rule distinct_map_inner)
  have ms: "mset (rangeMap ord m) = mset m"
    by (rule rangeMap_mset [OF assms(1) d])
  then have "mset (map (\<lambda>x. kf (fst x)) (rangeMap ord m)) = mset (map (\<lambda>x. kf (fst x)) m)"
    by simp
  with assms(2) have dk: "distinct (map (\<lambda>x. kf (fst x)) (rangeMap ord m))"
    by (metis mset_eq_imp_distinct_iff)
  have f: "(\<lambda>(k, v) acc. AList.update (kf k) v acc) =
           (\<lambda>x acc. AList.update (kf (fst x)) (snd x) acc)"
    by (simp add: fun_eq_iff)
  have "fold (\<lambda>(k, v) acc. AList.update (kf k) v acc) (rangeMap ord m) [] =
          [] @ map (\<lambda>x. (kf (fst x), snd x)) (rangeMap ord m)"
    unfolding f by (rule fold_update_distinct [OF dk]) simp
  then show ?thesis
    by (simp add: ms)
qed

lemma cleanSchema_flat_same:
  assumes o1: "iterationOrder ord1" and o2: "iterationOrder ord2"
    and keys: "fst ` set A1 = fst ` set A2"
    and inj: "inj_on ToLower (fst ` set A1)"
    and flat: "flatSchema s"
    and names: "distinct (map (\<lambda>(propName, propSchema). cleanPropertyName propName) (Properties s))"
  shows "sameSchema (cleanSchema ord1 A1 s) (cleanSchema ord2 A2 s)"
proof (cases s)
  case (Schema t f props items req ap ref ex d en df)
  note same = cleanSchema_propertyFree_same [OF o1 o2 keys inj]
  from flat Schema have p: "\<forall>p \<in> set props. propertyFree (snd p)"
    and fi: "\<forall>i. items = Some i \<longrightarrow> propertyFree i"
    and fa: "\<forall>a. ap = Some (Inr a) \<longrightarrow> propertyFree a"
    by (simp_all add: flatSchema_iff del: propertyFree.simps)
  have r: "cleanReference ord1 ref A1 = cleanReference ord2 ref A2"
    by (rule cleanReference_same [OF o1 o2 keys inj])
  have L: "map (map_prod id (cleanSchema ord1 A1)) props =
           map (map_prod id (cleanSchema ord2 A2)) props"
    using p by (intro map_cong refl) (auto simp: map_prod_def same split: prod.splits)
  have i: "map_option (cleanSchema ord1 A1) items = map_option (cleanSchema ord2 A2) items"
    using fi by (cases items) (simp_all add: same)
  have a: "map_option (map_sum id (cleanSchema ord1 A1)) ap =
           map_option (map_sum id (cleanSchema ord2 A2)) ap"
  proof (cases ap)
    case None
    then show ?thesis by simp
  next
    case (Some x)
    with fa show ?thesis by (cases x) (simp_all add: same)
  qed
  let ?L = "map (map_prod id (cleanSchema ord2 A2)) props"
  have e: "map (\<lambda>x. cleanPropertyName (fst x)) ?L = map (\<lambda>x. cleanPropertyName (fst x)) props"
    by (simp add: comp_def)
  from names Schema have "distinct (map (\<lambda>x. cleanPropertyName (fst x)) props)"
    by (simp add: case_prod_unfold)
  then have dL: "distinct (map (\<lambda>x. cleanPropertyName (fst x)) ?L)"
    by (simp only: e)
  have P: "mset (fold (\<lambda>(propName, propSchema) cleanProps.
                         AList.update (cleanPropertyName propName) propSchema cleanProps)
                   (rangeMap ord1 ?L) []) =
           mset (fold (\<lambda>(propName, propSchema) cleanProps.
                         AList.update (cleanPropertyName propName) propSchema cleanProps)
                   (rangeMap ord2 ?L) [])"
    by (simp only: fold_update_permuted [OF o1 dL] fold_update_permuted [OF o2 dL])
  show ?thesis
    unfolding Schema cleanSchema.simps Let_def L i a r
    using P by (simp add: sameSchema_Schema sameSchema_refl)
qed

lemma sameSchema_removeInvalid:
  assumes "sameSchema a b"
  shows "sameSchema (removeInvalidRefsFromSchema valid a) (removeInvalidRefsFromSchema valid b)"
proof (cases a)
  case A: (Schema t f p1 i r ap rf e d en df)
  show ?thesis
  proof (cases b)
    case B: (Schema t' f' p2 i' r' ap' rf' e' d' en' df')
    from assms A B have eq: "t = t'" "f = f'" "i = i'" "r = r'" "ap = ap'" "rf = rf'" "e = e'"
      "d = d'" "en = en'" "df = df'" and ms: "mset p1 = mset p2"
      by (simp_all add: sameSchema_Schema)
    from ms have "mset (map (map_prod id (removeInvalidRefsFromSchema valid)) p1) =
                  mset (map (map_prod id (removeInvalidRefsFromSchema valid)) p2)"
      by simp
    then show ?thesis
      unfolding A B eq removeInvalidRefsFromSchema.simps
      by (simp add: sameSchema_Schema sameSchema_refl)
  qed
qed
lemma fold_update_permuted_pairs:
  assumes "iterationOrder ord" and "distinct (map fst m)" and "distinct (map kf m)"
  shows "mset (fold (\<lambda>x acc. AList.update (kf x) (vf x) acc) (rangeMap ord m) []) =
           image_mset (\<lambda>x. (kf x, vf x)) (mset m)"
proof -
  have ms: "mset (rangeMap ord m) = mset m"
    by (rule rangeMap_mset [OF assms(1,2)])
  then have "mset (map kf (rangeMap ord m)) = mset (map kf m)"
    by simp
  with assms(3) have dk: "distinct (map kf (rangeMap ord m))"
    by (metis mset_eq_imp_distinct_iff)
  have "fold (\<lambda>x acc. AList.update (kf x) (vf x) acc) (rangeMap ord m) [] =
          [] @ map (\<lambda>x. (kf x, vf x)) (rangeMap ord m)"
    by (rule fold_update_distinct [OF dk]) simp
  then show ?thesis
    by (simp add: ms)
qed

lemma fold_update_set_subset:
  "set (fold (\<lambda>x m. AList.update (kf x) (vf x) m) xs m0) \<subseteq>
     set m0 \<union> (\<lambda>x. (kf x, vf x)) ` set xs"
proof (induction xs arbitrary: m0)
  case Nil
  then show ?case by simp
next
  case (Cons x xs)
  have "set (fold (\<lambda>x m. AList.update (kf x) (vf x) m) xs (AList.update (kf x) (vf x) m0)) \<subseteq>
          set (AList.update (kf x) (vf x) m0) \<union> (\<lambda>x. (kf x, vf x)) ` set xs"
    by (rule Cons.IH)
  with set_update_subset [of "kf x" "vf x" m0] show ?case by auto
qed

lemma baseline_mset:
  assumes "mset m1 = mset m2"
  shows "mset (if map_of m1 k = None then AList.update k v m1 else m1) =
         mset (if map_of m2 k = None then AList.update k v m2 else m2)"
proof -
  from assms have "set m1 = set m2" by (rule mset_eq_setD)
  then have keys: "fst ` set m1 = fst ` set m2" by simp
  show ?thesis
  proof (cases "k \<in> fst ` set m1")
    case True
    with keys show ?thesis by (simp add: map_of_None_iff_key assms)
  next
    case False
    with keys have "k \<notin> fst ` set m2" by simp
    with False show ?thesis
      by (simp add: map_of_None_iff_key update_absent assms)
  qed
qed

lemma baseline_subset:
  "set (if map_of m k = None then AList.update k v m else m) \<subseteq> insert (k, v) (set m)"
  using set_update_subset [of k v m] by auto

lemma baseline_distinct:
  "distinct (map fst m) \<Longrightarrow>
   distinct (map fst (if map_of m k = None then AList.update k v m else m))"
  by (simp add: distinct_update)

lemma generateSchemas_fold:
  "generateSchemas ord models =
     (let schemas = fold (\<lambda>x m. AList.update (cleanSchemaName (Model_Name (snd x)))
                                    (generateSchemaFromModel (snd x)) m)
                      (rangeMap ord models) [];
          schemas = (if map_of schemas ''ErrorResponse'' = None
                     then AList.update ''ErrorResponse'' errorResponseSchema schemas else schemas)
      in if map_of schemas ''StandardResponse'' = None
         then AList.update ''StandardResponse'' standardResponseSchema schemas else schemas)"
proof -
  have f: "(\<lambda>(key, model) m.
               AList.update (cleanSchemaName (Model_Name model)) (generateSchemaFromModel model) m) =
           (\<lambda>x m. AList.update (cleanSchemaName (Model_Name (snd x)))
               (generateSchemaFromModel (snd x)) m)"
    by (simp add: fun_eq_iff)
  show ?thesis
    unfolding generateSchemas_def by (simp only: f)
qed

lemma generateSchemas_distinct: "distinct (map fst (generateSchemas ord models))"
  unfolding generateSchemas_fold Let_def
  by (intro baseline_distinct fold_update_keys_distinct) simp

lemma generateSchemas_mset:
  assumes "iterationOrder ord1" "iterationOrder ord2"
    and "distinct (map fst models)"
    and "distinct (map (\<lambda>x. cleanSchemaName (Model_Name (snd x))) models)"
  shows "mset (generateSchemas ord1 models) = mset (generateSchemas ord2 models)"
  unfolding generateSchemas_fold Let_def
  by (intro baseline_mset)
    (simp only: fold_update_permuted_pairs [OF assms(1,3,4)]
      fold_update_permuted_pairs [OF assms(2,3,4)])

lemma generateSchemas_entries:
  assumes "(n, s) \<in> set (generateSchemas ord models)"
  shows "(\<exists>x \<in> set models. n = cleanSchemaName (Model_Name (snd x)) \<and>
            s = generateSchemaFromModel (snd x)) \<or>
         (n = ''ErrorResponse'' \<and> s = errorResponseSchema) \<or>
         (n = ''StandardResponse'' \<and> s = standardResponseSchema)"
proof -
  let ?m = "fold (\<lambda>x m. AList.update (cleanSchemaName (Model_Name (snd x)))
                                    (generateSchemaFromModel (snd x)) m)
                      (rangeMap ord models) []"
  let ?e = "if map_of ?m ''ErrorResponse'' = None
            then AList.update ''ErrorResponse'' errorResponseSchema ?m else ?m"
  from assms have "(n, s) \<in> set (if map_of ?e ''StandardResponse'' = None
         then AList.update ''StandardResponse'' standardResponseSchema ?e else ?e)"
    unfolding generateSchemas_fold Let_def .
  with baseline_subset [of ?e "''StandardResponse''" standardResponseSchema]
  have "(n, s) = (''StandardResponse'', standardResponseSchema) \<or> (n, s) \<in> set ?e"
    by blast
  with baseline_subset [of ?m "''ErrorResponse''" errorResponseSchema]
  have "(n, s) = (''StandardResponse'', standardResponseSchema) \<or>
        (n, s) = (''ErrorResponse'', errorResponseSchema) \<or> (n, s) \<in> set ?m"
    by blast
  moreover have "set ?m \<subseteq> (\<lambda>x. (cleanSchemaName (Model_Name (snd x)),
                                 generateSchemaFromModel (snd x))) ` set models"
    using fold_update_set_subset [of "\<lambda>x. cleanSchemaName (Model_Name (snd x))"
        "\<lambda>x. generateSchemaFromModel (snd x)" "rangeMap ord models" "[]"]
      rangeMap_subset [of ord models]
    by auto
  ultimately show ?thesis by auto
qed

lemma generateSchemas_names_fixed:
  "(n, s) \<in> set (generateSchemas ord models) \<Longrightarrow> cleanSchemaName n = n"
  by (auto dest!: generateSchemas_entries simp: cleanSchemaName_idem cleanSchemaName_baseline)

lemma cleanedSchemas_mset:
  assumes "iterationOrder ord" and "distinct (map fst m)"
    and "\<And>x. x \<in> set m \<Longrightarrow> cleanSchemaName (fst x) = fst x"
  shows "mset (cleanedSchemas ord m) = mset m"
proof -
  have f: "(\<lambda>(oldName, schema) acc. AList.update (cleanSchemaName oldName) schema acc) =
           (\<lambda>x acc. AList.update (cleanSchemaName (fst x)) (snd x) acc)"
    by (simp add: fun_eq_iff)
  have e: "map (\<lambda>x. cleanSchemaName (fst x)) m = map fst m"
    using assms(3) by (intro map_cong refl)
  from assms(2) have d: "distinct (map (\<lambda>x. cleanSchemaName (fst x)) m)"
    by (simp only: e)
  have "mset (cleanedSchemas ord m) =
          image_mset (\<lambda>x. (cleanSchemaName (fst x), snd x)) (mset m)"
    unfolding cleanedSchemas_def f
    by (rule fold_update_permuted_pairs [OF assms(1,2) d])
  also have "\<dots> = image_mset (\<lambda>x. x) (mset m)"
    using assms(3) by (intro image_mset_cong) (simp add: prod_eq_iff)
  finally show ?thesis by simp
qed

lemma Schemas_of_ValidateAndCleanSpec:
  "Schemas (Spec_Components (ValidateAndCleanSpec ord spec)) =
     (let names = oldToNewNamesOf ord (Schemas (Spec_Components spec));
          renamed = map (\<lambda>(name, schema). (name, updateSchemaReferences names schema))
                      (cleanedSchemas ord (Schemas (Spec_Components spec)))
      in map (\<lambda>(name, schema).
                (name, removeInvalidRefsFromSchema (map fst renamed)
                         (cleanSchema ord renamed schema)))
           renamed)"
  by (simp add: ValidateAndCleanSpec_def removeInvalidReferences_def validatePaths_def
      validateSchemas_def cleanAllSchemaNames_def updateAllReferences_def Let_def
      case_prod_unfold comp_def)




end
